theory Spec2Isabelle
  imports Complex_Main "HOL-Library.Product_Lexorder"
begin

section \<open>Configuration constants of \<open>ai_traffic_simulation.py\<close>\<close>

text \<open>
  Coordinates, speeds and priorities are Python floats in the source; they are modelled
  here as real numbers, so every sum and comparison is exact. Flags that the source keeps
  as the integers 0 and 1 (\<open>crossed\<close>, \<open>will_turn\<close>, \<open>turned\<close>) are booleans.
\<close>

datatype direction = Right | Down | Left | Up

datatype vclass = Car | Bus | Truck | Rickshaw | Bike | Emergency

definition DEFAULT_RED :: int where "DEFAULT_RED = 150"
definition DEFAULT_YELLOW :: int where "DEFAULT_YELLOW = 5"
definition DEFAULT_GREEN :: int where "DEFAULT_GREEN = 20"
definition DEFAULT_MINIMUM :: int where "DEFAULT_MINIMUM = 10"
definition DEFAULT_MAXIMUM :: int where "DEFAULT_MAXIMUM = 60"

definition NO_OF_SIGNALS :: nat where "NO_OF_SIGNALS = 4"
definition NO_OF_LANES :: nat where "NO_OF_LANES = 2"
definition DETECTION_TIME :: int where "DETECTION_TIME = 5"

text \<open>\<open>VEHICLE_TIMES\<close> is a dictionary with no entry for the emergency class.\<close>

fun VEHICLE_TIMES :: "vclass \<Rightarrow> real option" where
  "VEHICLE_TIMES Car = Some 2"
| "VEHICLE_TIMES Bike = Some 1"
| "VEHICLE_TIMES Rickshaw = Some 2.25"
| "VEHICLE_TIMES Bus = Some 2.5"
| "VEHICLE_TIMES Truck = Some 2.5"
| "VEHICLE_TIMES Emergency = None"

fun VEHICLE_SPEEDS :: "vclass \<Rightarrow> real" where
  "VEHICLE_SPEEDS Car = 1.15"
| "VEHICLE_SPEEDS Bus = 0.6"
| "VEHICLE_SPEEDS Truck = 0.6"
| "VEHICLE_SPEEDS Rickshaw = 0.8"
| "VEHICLE_SPEEDS Bike = 1.3"
| "VEHICLE_SPEEDS Emergency = 1.7"

text \<open>
  \<open>VEHICLE_TYPES\<close> and \<open>DIRECTIONS\<close> are dictionaries keyed by 0..5 and 0..3. Every
  call site of the source passes a key in range (a \<open>range\<close> index, a remainder modulo 4
  or a bounded random draw); the last equation stands for the largest key.
\<close>

definition VEHICLE_TYPES :: "nat \<Rightarrow> vclass" where
  "VEHICLE_TYPES n =
     (if n = 0 then Car else if n = 1 then Bus else if n = 2 then Truck
      else if n = 3 then Rickshaw else if n = 4 then Bike else Emergency)"

definition DIRECTIONS :: "nat \<Rightarrow> direction" where
  "DIRECTIONS n = (if n = 0 then Right else if n = 1 then Down else if n = 2 then Left else Up)"

fun SPAWN_COORDS :: "direction \<Rightarrow> real list \<times> real list" where
  "SPAWN_COORDS Right = ([0, 0, 0], [348, 370, 398])"
| "SPAWN_COORDS Down = ([755, 727, 697], [0, 0, 0])"
| "SPAWN_COORDS Left = ([1400, 1400, 1400], [498, 466, 436])"
| "SPAWN_COORDS Up = ([602, 627, 657], [800, 800, 800])"

fun STOP_LINES :: "direction \<Rightarrow> real" where
  "STOP_LINES Right = 590"
| "STOP_LINES Down = 330"
| "STOP_LINES Left = 800"
| "STOP_LINES Up = 535"

fun DEFAULT_STOPS :: "direction \<Rightarrow> real" where
  "DEFAULT_STOPS Right = 580"
| "DEFAULT_STOPS Down = 320"
| "DEFAULT_STOPS Left = 810"
| "DEFAULT_STOPS Up = 545"

text \<open>\<open>TURN_MIDPOINTS\<close>: the pair is (entry \<open>'x'\<close>, entry \<open>'y'\<close>).\<close>

fun TURN_MIDPOINTS :: "direction \<Rightarrow> real \<times> real" where
  "TURN_MIDPOINTS Right = (705, 445)"
| "TURN_MIDPOINTS Down = (695, 450)"
| "TURN_MIDPOINTS Left = (695, 425)"
| "TURN_MIDPOINTS Up = (695, 400)"

definition STOPPING_GAP :: real where "STOPPING_GAP = 15"
definition MOVING_GAP :: real where "MOVING_GAP = 15"
definition ROTATION_ANGLE :: int where "ROTATION_ANGLE = 3"

section \<open>Data model\<close>

record traffic_signal =
  red :: int
  yellow :: int
  green :: int
  minimum :: int
  maximum :: int
  total_green_time :: int

text \<open>
  A vehicle. The image files are not part of the sources, so an image is represented by
  what the motion rules read from it: \<open>current_image\<close> is the (width, height) of the
  bounding rectangle of the image now shown, and \<open>original_image\<close> gives that pair for
  the original image rotated by a given angle (\<open>pygame.transform.rotate\<close>).
  The field \<open>speed\<close> of the source is set once from \<open>VEHICLE_SPEEDS\<close> and never
  reassigned; it is the function \<open>speed\<close> below.
\<close>

record vehicle =
  lane :: nat
  vehicle_class :: vclass
  direction_number :: nat
  direction :: direction
  x :: real
  y :: real
  crossed :: bool
  will_turn :: bool
  turned :: bool
  rotate_angle :: int
  waiting_time :: int
  spawn_time :: int
  cross_time :: "int option"
  index :: nat
  original_image :: "int \<Rightarrow> nat \<times> nat"
  current_image :: "nat \<times> nat"
  stop :: real

definition speed :: "vehicle \<Rightarrow> real" where
  "speed v = VEHICLE_SPEEDS (vehicle_class v)"

definition width :: "vehicle \<Rightarrow> real" where
  "width v = real (fst (current_image v))"

definition height :: "vehicle \<Rightarrow> real" where
  "height v = real (snd (current_image v))"

text \<open>
  The shared globals. \<open>vehicles d l\<close> is the lane queue \<open>vehicles[d][l]\<close> for the lanes
  0, 1, 2 and \<open>crossed_count d\<close> is \<open>vehicles[d]['crossed']\<close>.
\<close>

record world =
  vehicles :: "direction \<Rightarrow> nat \<Rightarrow> vehicle list"
  crossed_count :: "direction \<Rightarrow> nat"
  signals :: "traffic_signal list"
  time_elapsed :: int
  current_green :: nat
  current_yellow :: nat
  lane_last_green_time :: "int list"
  waiting_times :: "int list"

definition set_lane :: "direction \<Rightarrow> nat \<Rightarrow> vehicle list \<Rightarrow> world \<Rightarrow> world" where
  "set_lane d l q st = st\<lparr>vehicles := (vehicles st)(d := (vehicles st d)(l := q))\<rparr>"

section \<open>Vehicle motion model\<close>

text \<open>
  Every motion function of class \<open>Vehicle\<close> takes the signal globals it reads
  (\<open>current_green\<close>, \<open>current_yellow\<close>), the position \<open>idx\<close> of the vehicle in its lane
  queue and the queue, and returns the flag the source returns together with the queue
  after the call; \<open>self\<close> is the element at \<open>idx\<close>. The source only reads
  \<open>lane_list[idx - 1]\<close> behind the test \<open>idx == 0\<close>.
\<close>

definition move_right_straight :: "nat \<Rightarrow> nat \<Rightarrow> nat \<Rightarrow> vehicle list \<Rightarrow> bool \<times> vehicle list" where
  "move_right_straight cg cy idx lane_list =
     (let self = lane_list ! idx;
          can_move =
            ((x self + width self \<le> stop self \<or> crossed self \<or> (cg = 0 \<and> cy = 0)) \<and>
             (idx = 0 \<or>
              x self + width self < x (lane_list ! (idx - 1)) - MOVING_GAP \<or>
              turned (lane_list ! (idx - 1))))
      in if can_move then (True, lane_list[idx := self\<lparr>x := x self + speed self\<rparr>])
         else (False, lane_list))"

definition move_right_turn :: "nat \<Rightarrow> nat \<Rightarrow> nat \<Rightarrow> vehicle list \<Rightarrow> bool \<times> vehicle list" where
  "move_right_turn cg cy idx lane_list =
     (let self = lane_list ! idx in
      if \<not> crossed self \<or> x self + width self < fst (TURN_MIDPOINTS Right) then
        (let can_move =
               ((x self + width self \<le> stop self \<or> (cg = 0 \<and> cy = 0) \<or> crossed self) \<and>
                (idx = 0 \<or>
                 x self + width self < x (lane_list ! (idx - 1)) - MOVING_GAP \<or>
                 turned (lane_list ! (idx - 1))))
         in if can_move then (True, lane_list[idx := self\<lparr>x := x self + speed self\<rparr>])
            else (False, lane_list))
      else if \<not> turned self then
        (let a = rotate_angle self + ROTATION_ANGLE
         in (True, lane_list[idx := self\<lparr>rotate_angle := a,
                                         current_image := original_image self (- a),
                                         x := x self + 2, y := y self + 1.8,
                                         turned := (a = 90)\<rparr>]))
      else
        (let can_move =
               (idx = 0 \<or>
                y self + height self < y (lane_list ! (idx - 1)) - MOVING_GAP \<or>
                x self + width self < x (lane_list ! (idx - 1)) - MOVING_GAP)
         in if can_move then (True, lane_list[idx := self\<lparr>y := y self + speed self\<rparr>])
            else (False, lane_list)))"

definition move_right :: "nat \<Rightarrow> nat \<Rightarrow> nat \<Rightarrow> vehicle list \<Rightarrow> bool \<times> vehicle list" where
  "move_right cg cy idx lane_list =
     (if will_turn (lane_list ! idx) then move_right_turn cg cy idx lane_list
      else move_right_straight cg cy idx lane_list)"

definition move_down_straight :: "nat \<Rightarrow> nat \<Rightarrow> nat \<Rightarrow> vehicle list \<Rightarrow> bool \<times> vehicle list" where
  "move_down_straight cg cy idx lane_list =
     (let self = lane_list ! idx;
          can_move =
            ((y self + height self \<le> stop self \<or> crossed self \<or> (cg = 1 \<and> cy = 0)) \<and>
             (idx = 0 \<or>
              y self + height self < y (lane_list ! (idx - 1)) - MOVING_GAP \<or>
              turned (lane_list ! (idx - 1))))
      in if can_move then (True, lane_list[idx := self\<lparr>y := y self + speed self\<rparr>])
         else (False, lane_list))"

definition move_down_turn :: "nat \<Rightarrow> nat \<Rightarrow> nat \<Rightarrow> vehicle list \<Rightarrow> bool \<times> vehicle list" where
  "move_down_turn cg cy idx lane_list =
     (let self = lane_list ! idx in
      if \<not> crossed self \<or> y self + height self < snd (TURN_MIDPOINTS Down) then
        (let can_move =
               ((y self + height self \<le> stop self \<or> (cg = 1 \<and> cy = 0) \<or> crossed self) \<and>
                (idx = 0 \<or>
                 y self + height self < y (lane_list ! (idx - 1)) - MOVING_GAP \<or>
                 turned (lane_list ! (idx - 1))))
         in if can_move then (True, lane_list[idx := self\<lparr>y := y self + speed self\<rparr>])
            else (False, lane_list))
      else if \<not> turned self then
        (let a = rotate_angle self + ROTATION_ANGLE
         in (True, lane_list[idx := self\<lparr>rotate_angle := a,
                                         current_image := original_image self (- a),
                                         x := x self - 2.5, y := y self + 2,
                                         turned := (a = 90)\<rparr>]))
      else
        (let prev = lane_list ! (idx - 1);
             can_move =
               (idx = 0 \<or>
                x self > x prev + width prev + MOVING_GAP \<or>
                y self < y prev - MOVING_GAP)
         in if can_move then (True, lane_list[idx := self\<lparr>x := x self - speed self\<rparr>])
            else (False, lane_list)))"

definition move_down :: "nat \<Rightarrow> nat \<Rightarrow> nat \<Rightarrow> vehicle list \<Rightarrow> bool \<times> vehicle list" where
  "move_down cg cy idx lane_list =
     (if will_turn (lane_list ! idx) then move_down_turn cg cy idx lane_list
      else move_down_straight cg cy idx lane_list)"

text \<open>
  \<open>_move_left_after_crossing\<close>: the loop runs \<open>j\<close> from \<open>idx - 1\<close> down to 0 and keeps
  the first vehicle whose right edge is still on the scene. The removal of the vehicle
  comes after the \<open>return True\<close> of the branch that moves it.
\<close>

definition move_left_after_crossing :: "nat \<Rightarrow> vehicle list \<Rightarrow> bool \<times> vehicle list" where
  "move_left_after_crossing idx lane_list =
     (let self = lane_list ! idx;
          ahead = find (\<lambda>v. x v + width v > 0) (rev (take idx lane_list))
      in if (case ahead of None \<Rightarrow> True
                         | Some a \<Rightarrow> x self > x a + width a + MOVING_GAP)
         then (True, lane_list[idx := self\<lparr>x := x self - speed self\<rparr>])
         else if x self + width self < - 10
         then (False, take idx lane_list @ drop (Suc idx) lane_list)
         else (False, lane_list))"

definition move_left_straight :: "nat \<Rightarrow> nat \<Rightarrow> nat \<Rightarrow> vehicle list \<Rightarrow> bool \<times> vehicle list" where
  "move_left_straight cg cy idx lane_list =
     (let self = lane_list ! idx;
          prev = lane_list ! (idx - 1);
          can_move =
            ((x self \<ge> stop self \<or> crossed self \<or> (cg = 2 \<and> cy = 0)) \<and>
             (idx = 0 \<or> x self > x prev + width prev + MOVING_GAP))
      in if can_move then (True, lane_list[idx := self\<lparr>x := x self - speed self\<rparr>])
         else (False, lane_list))"

definition move_left_turn :: "nat \<Rightarrow> nat \<Rightarrow> nat \<Rightarrow> vehicle list \<Rightarrow> bool \<times> vehicle list" where
  "move_left_turn cg cy idx lane_list =
     (let self = lane_list ! idx; prev = lane_list ! (idx - 1) in
      if \<not> crossed self \<or> x self > fst (TURN_MIDPOINTS Left) then
        (let can_move =
               ((x self \<ge> stop self \<or> (cg = 2 \<and> cy = 0) \<or> crossed self) \<and>
                (idx = 0 \<or> x self > x prev + width prev + MOVING_GAP \<or> turned prev))
         in if can_move then (True, lane_list[idx := self\<lparr>x := x self - speed self\<rparr>])
            else (False, lane_list))
      else if \<not> turned self then
        (let a = rotate_angle self + ROTATION_ANGLE
         in (True, lane_list[idx := self\<lparr>rotate_angle := a,
                                         current_image := original_image self (- a),
                                         x := x self - 1.8, y := y self - 2.5,
                                         turned := (a = 90)\<rparr>]))
      else
        (let can_move =
               (idx = 0 \<or>
                y self > y prev + height prev + MOVING_GAP \<or>
                x self > x prev + MOVING_GAP)
         in if can_move then (True, lane_list[idx := self\<lparr>y := y self - speed self\<rparr>])
            else (False, lane_list)))"

definition move_left :: "nat \<Rightarrow> nat \<Rightarrow> nat \<Rightarrow> vehicle list \<Rightarrow> bool \<times> vehicle list" where
  "move_left cg cy idx lane_list =
     (if crossed (lane_list ! idx) then move_left_after_crossing idx lane_list
      else if will_turn (lane_list ! idx) then move_left_turn cg cy idx lane_list
      else move_left_straight cg cy idx lane_list)"

definition move_up_straight :: "nat \<Rightarrow> nat \<Rightarrow> nat \<Rightarrow> vehicle list \<Rightarrow> bool \<times> vehicle list" where
  "move_up_straight cg cy idx lane_list =
     (let self = lane_list ! idx;
          prev = lane_list ! (idx - 1);
          can_move =
            ((y self \<ge> stop self \<or> crossed self \<or> (cg = 3 \<and> cy = 0)) \<and>
             (idx = 0 \<or> y self > y prev + height prev + MOVING_GAP \<or> turned prev))
      in if can_move then (True, lane_list[idx := self\<lparr>y := y self - speed self\<rparr>])
         else (False, lane_list))"

definition move_up_turn :: "nat \<Rightarrow> nat \<Rightarrow> nat \<Rightarrow> vehicle list \<Rightarrow> bool \<times> vehicle list" where
  "move_up_turn cg cy idx lane_list =
     (let self = lane_list ! idx; prev = lane_list ! (idx - 1) in
      if \<not> crossed self \<or> y self > snd (TURN_MIDPOINTS Up) then
        (let can_move =
               ((y self \<ge> stop self \<or> (cg = 3 \<and> cy = 0) \<or> crossed self) \<and>
                (idx = 0 \<or> y self > y prev + height prev + MOVING_GAP \<or> turned prev))
         in if can_move then (True, lane_list[idx := self\<lparr>y := y self - speed self\<rparr>])
            else (False, lane_list))
      else if \<not> turned self then
        (let a = rotate_angle self + ROTATION_ANGLE
         in (True, lane_list[idx := self\<lparr>rotate_angle := a,
                                         current_image := original_image self (- a),
                                         x := x self + 1, y := y self - 1,
                                         turned := (a = 90)\<rparr>]))
      else
        (let can_move =
               (idx = 0 \<or>
                x self < x prev - width prev - MOVING_GAP \<or>
                y self > y prev + MOVING_GAP)
         in if can_move then (True, lane_list[idx := self\<lparr>x := x self + speed self\<rparr>])
            else (False, lane_list)))"

definition move_up :: "nat \<Rightarrow> nat \<Rightarrow> nat \<Rightarrow> vehicle list \<Rightarrow> bool \<times> vehicle list" where
  "move_up cg cy idx lane_list =
     (if will_turn (lane_list ! idx) then move_up_turn cg cy idx lane_list
      else move_up_straight cg cy idx lane_list)"

text \<open>
  \<open>_mark_crossed\<close> and \<open>_check_crossing\<close>, on the vehicle at position \<open>idx\<close> of the
  queue \<open>vehicles[d][l]\<close>; \<open>d\<close> is that vehicle's \<open>direction\<close>.
\<close>

definition mark_crossed :: "direction \<Rightarrow> nat \<Rightarrow> nat \<Rightarrow> world \<Rightarrow> world" where
  "mark_crossed d l idx st =
     (let self = vehicles st d l ! idx;
          self' = self\<lparr>crossed := True, cross_time := Some (time_elapsed st)\<rparr>
      in (set_lane d l ((vehicles st d l)[idx := self']) st)
           \<lparr>waiting_times := waiting_times st @ [time_elapsed st - spawn_time self],
            crossed_count := (crossed_count st)(d := crossed_count st d + 1)\<rparr>)"

definition passed_stop_line :: "direction \<Rightarrow> vehicle \<Rightarrow> bool" where
  "passed_stop_line d v =
     (case d of
        Right \<Rightarrow> x v + width v > STOP_LINES Right
      | Down \<Rightarrow> y v + height v > STOP_LINES Down
      | Left \<Rightarrow> x v < STOP_LINES Left
      | Up \<Rightarrow> y v < STOP_LINES Up)"

definition check_crossing :: "direction \<Rightarrow> nat \<Rightarrow> nat \<Rightarrow> world \<Rightarrow> world" where
  "check_crossing d l idx st =
     (let self = vehicles st d l ! idx in
      if \<not> crossed self then
        (if passed_stop_line d self then mark_crossed d l idx st else st)
      else st)"

text \<open>
  \<open>Vehicle.move\<close> for the vehicle at position \<open>idx\<close> of \<open>vehicles[d][l]\<close>. A vehicle
  that is no longer in its queue (\<open>ValueError\<close> from \<open>lane_list.index\<close>) is left alone.
\<close>

definition move :: "direction \<Rightarrow> nat \<Rightarrow> nat \<Rightarrow> world \<Rightarrow> world" where
  "move d l idx st =
     (if idx \<ge> length (vehicles st d l) then st
      else
        let self = vehicles st d l ! idx;
            st1 = (if \<not> crossed self
                   then set_lane d l
                          ((vehicles st d l)[idx := self\<lparr>waiting_time := waiting_time self + 1\<rparr>]) st
                   else st);
            st2 = check_crossing d l idx st1;
            lane_list = vehicles st2 d l;
            cg = current_green st2;
            cy = current_yellow st2;
            res = (case d of
                     Right \<Rightarrow> move_right cg cy idx lane_list
                   | Down \<Rightarrow> move_down cg cy idx lane_list
                   | Left \<Rightarrow> move_left cg cy idx lane_list
                   | Up \<Rightarrow> move_up cg cy idx lane_list)
        in set_lane d l (snd res) st2)"

section \<open>Signal scheduler\<close>

text \<open>The count \<open>sum(1 for lane in range(3) for v in vehicles[d][lane] if v.crossed == 0)\<close>.\<close>

definition waiting_count :: "world \<Rightarrow> nat \<Rightarrow> nat" where
  "waiting_count st lane_idx =
     sum_list (map (\<lambda>lane. length (filter (\<lambda>v. \<not> crossed v) (vehicles st (DIRECTIONS lane_idx) lane)))
                   [0..<3])"

subsection \<open>Emergency override\<close>

definition arrival_estimate :: "direction \<Rightarrow> vehicle \<Rightarrow> real" where
  "arrival_estimate d v =
     (case d of Right \<Rightarrow> x v | Left \<Rightarrow> - x v | Up \<Rightarrow> y v | Down \<Rightarrow> - y v)"

text \<open>
  The scan visits the approaches 0..3, in each the lanes 0..2, in each the queue in order.
  The pair of variables \<open>earliest_emergency_time\<close> (initially infinite) and
  \<open>earliest_emergency_lane\<close> (initially \<open>None\<close>) is one optional pair: both are
  assigned together, and every estimate is below the initial infinity.
\<close>

definition scanned_vehicles :: "world \<Rightarrow> (nat \<times> vehicle) list" where
  "scanned_vehicles st =
     concat (map (\<lambda>lane_idx.
               concat (map (\<lambda>lane. map (\<lambda>v. (lane_idx, v)) (vehicles st (DIRECTIONS lane_idx) lane))
                           [0..<3]))
             [0..<NO_OF_SIGNALS])"

definition scan_step :: "nat \<times> vehicle \<Rightarrow> (real \<times> nat) option \<Rightarrow> (real \<times> nat) option" where
  "scan_step p earliest =
     (case p of (lane_idx, v) \<Rightarrow>
        if \<not> crossed v \<and> vehicle_class v = Emergency then
          (let arrival = arrival_estimate (DIRECTIONS lane_idx) v in
           case earliest of
             None \<Rightarrow> Some (arrival, lane_idx)
           | Some (earliest_time, earliest_lane) \<Rightarrow>
               if arrival < earliest_time then Some (arrival, lane_idx) else earliest)
        else earliest)"

definition earliest_emergency_lane :: "world \<Rightarrow> nat option" where
  "earliest_emergency_lane st = map_option snd (fold scan_step (scanned_vehicles st) None)"

subsection \<open>Floating-point arithmetic\<close>

text \<open>Python's \<open>round\<close> on a float: to the nearest integer, a tie to the even one.\<close>

definition py_round :: "real \<Rightarrow> int" where
  "py_round r =
     (let f = \<lfloor>r\<rfloor> in
      if r - of_int f < 1 / 2 then f
      else if r - of_int f > 1 / 2 then f + 1
      else if even f then f else f + 1)"

text \<open>
  A Python float is an IEEE 754 double: 53 significant bits, every operation rounded to the
  nearest double, a tie to the one with an even significand. \<open>round_double r\<close> is the
  double nearest to the real \<open>r\<close>: with \<open>e\<close> the binary exponent of \<open>r\<close>, the doubles around
  \<open>r\<close> are the multiples of \<open>2 powr (e - 52)\<close>. The exponent range is not bounded here:
  magnitudes beyond \<open>2 ^ 1024\<close>, where Python raises \<open>OverflowError\<close> or yields \<open>inf\<close>, and
  below \<open>2 powr - 1022\<close> do not occur for a count of vehicles and a number of seconds.
  \<open>float_0_2\<close> is the literal \<open>0.2\<close>, \<open>float_of_int\<close> the conversion of an \<open>int\<close> operand,
  \<open>fmul\<close> and \<open>fadd\<close> are \<open>*\<close> and \<open>+\<close> on floats.
\<close>

definition round_double :: "real \<Rightarrow> real" where
  "round_double r =
     (if r = 0 then 0
      else
        let e = \<lfloor>log 2 \<bar>r\<bar>\<rfloor>;
            ulp = 2 powr real_of_int (e - 52)
        in ulp * real_of_int (py_round (r / ulp)))"

definition float_0_2 :: real where
  "float_0_2 = round_double 0.2"

definition float_of_int :: "int \<Rightarrow> real" where
  "float_of_int n = round_double (real_of_int n)"

definition fmul :: "real \<Rightarrow> real \<Rightarrow> real" where
  "fmul a b = round_double (a * b)"

definition fadd :: "real \<Rightarrow> real \<Rightarrow> real" where
  "fadd a b = round_double (a + b)"

subsection \<open>Normal priority\<close>

text \<open>
  An entry is the tuple \<open>(priority, lane_idx, waiting_count, waiting_time)\<close>. The
  priority \<open>waiting_count + 0.2 * waiting_time\<close> is computed on floats: both \<open>int\<close>
  operands are converted, the product is rounded and then the sum; for an approach with
  no waiting vehicle it is the \<open>int\<close> 0. \<open>priorities.sort(reverse=True)\<close> compares whole
  tuples lexicographically, so the first element afterwards is the greatest tuple.
\<close>

definition priority_entry :: "world \<Rightarrow> nat \<Rightarrow> real \<times> nat \<times> nat \<times> int" where
  "priority_entry st lane_idx =
     (let count = waiting_count st lane_idx;
          waited = time_elapsed st - lane_last_green_time st ! lane_idx;
          priority = (if count > 0
                      then fadd (float_of_int (int count)) (fmul float_0_2 (float_of_int waited))
                      else 0)
      in (priority, lane_idx, count, waited))"

definition priorities :: "world \<Rightarrow> (real \<times> nat \<times> nat \<times> int) list" where
  "priorities st = filter (\<lambda>p. fst p > 0) (map (priority_entry st) [0..<NO_OF_SIGNALS])"

definition select_normal :: "world \<Rightarrow> nat option" where
  "select_normal st =
     (let ps = priorities st in
      if ps = [] then None else Some (fst (snd (hd (rev (sort ps))))))"

text \<open>The selection of one pass of the loop; \<open>None\<close> is the branch that sleeps and retries.\<close>

definition select_lane :: "world \<Rightarrow> nat option" where
  "select_lane st =
     (case earliest_emergency_lane st of
        Some lane_idx \<Rightarrow> Some lane_idx
      | None \<Rightarrow> select_normal st)"

subsection \<open>Green time at selection\<close>

definition nonlinear_green_time :: "nat \<Rightarrow> int" where
  "nonlinear_green_time count =
     max DEFAULT_MINIMUM (min DEFAULT_MAXIMUM (py_round (8 + 1.0 * (real count powr 0.85))))"

text \<open>
  After the selection the loop assigns the globals (lines 638 to 640), prints a line that
  reads the local variables \<open>max_waiting\<close> and \<open>max_waiting_time\<close>, and sets the green
  time. Only the normal branch assigns these two variables; \<open>bound\<close> tells whether they
  are assigned when the line is printed. Reading an unassigned local raises
  \<open>UnboundLocalError\<close>, which ends the signal thread with the globals already assigned.
\<close>

datatype error = UnboundLocalError

definition grant_green :: "nat \<Rightarrow> world \<Rightarrow> world" where
  "grant_green selected_lane st =
     st\<lparr>signals := (signals st)[selected_lane := (signals st ! selected_lane)\<lparr>red := DEFAULT_RED\<rparr>],
        current_green := selected_lane,
        lane_last_green_time := (lane_last_green_time st)[selected_lane := time_elapsed st]\<rparr>"

definition size_green :: "bool \<Rightarrow> world \<Rightarrow> error + world" where
  "size_green bound st =
     (if \<not> bound then Inl UnboundLocalError
      else
        let green_time = nonlinear_green_time (waiting_count st (current_green st))
        in Inr (st\<lparr>signals := (signals st)[current_green st :=
                      (signals st ! current_green st)\<lparr>green := green_time\<rparr>]\<rparr>))"

definition set_green :: "nat \<Rightarrow> bool \<Rightarrow> world \<Rightarrow> error + world" where
  "set_green selected_lane bound st = size_green bound (grant_green selected_lane st)"

subsection \<open>Timers\<close>

definition update_signal :: "nat \<Rightarrow> nat \<Rightarrow> nat \<Rightarrow> traffic_signal \<Rightarrow> traffic_signal" where
  "update_signal cg cy i s =
     (if i = cg then
        (if cy = 0 then s\<lparr>green := green s - 1, total_green_time := total_green_time s + 1\<rparr>
         else s\<lparr>yellow := yellow s - 1\<rparr>)
      else (let r = red s - 1 in s\<lparr>red := (if r < 0 then 0 else r)\<rparr>))"

definition update_signal_values :: "world \<Rightarrow> world" where
  "update_signal_values st =
     st\<lparr>signals := fold (\<lambda>i sigs. sigs[i := update_signal (current_green st) (current_yellow st) i (sigs ! i)])
                         [0..<NO_OF_SIGNALS] (signals st)\<rparr>"

subsection \<open>Look-ahead estimate\<close>

definition class_count :: "world \<Rightarrow> direction \<Rightarrow> vclass \<Rightarrow> nat" where
  "class_count st d c =
     sum_list (map (\<lambda>lane. length (filter (\<lambda>v. \<not> crossed v \<and> vehicle_class v = c) (vehicles st d lane)))
                   [0..<3])"

text \<open>The keys of \<open>vehicle_counts\<close>, in the order of the dictionary literal.\<close>

definition counted_classes :: "vclass list" where
  "counted_classes = [Car, Bus, Truck, Rickshaw, Bike, Emergency]"

definition total_time :: "world \<Rightarrow> direction \<Rightarrow> real" where
  "total_time st d =
     sum_list (map (\<lambda>vtype. real (class_count st d vtype) *
                             (case VEHICLE_TIMES vtype of Some t \<Rightarrow> t | None \<Rightarrow> 1))
                   counted_classes)"

definition lookahead_green_time :: "world \<Rightarrow> direction \<Rightarrow> int" where
  "lookahead_green_time st d =
     max DEFAULT_MINIMUM (min DEFAULT_MAXIMUM \<lceil>total_time st d / real (NO_OF_LANES + 1)\<rceil>)"

definition calculate_green_time :: "world \<Rightarrow> world" where
  "calculate_green_time st =
     (let next_signal = (current_green st + 1) mod NO_OF_SIGNALS;
          green_time = lookahead_green_time st (DIRECTIONS next_signal)
      in st\<lparr>signals := (signals st)[next_signal := (signals st ! next_signal)\<lparr>green := green_time\<rparr>]\<rparr>)"

subsection \<open>One pass of \<open>repeat_signal_cycle\<close>\<close>

text \<open>
  The body of the green loop. The detection thread is started and runs
  \<open>calculate_green_time\<close>; here it runs at once. The loops are sequential: the motion of
  vehicles that other threads perform between two iterations is not part of them.
\<close>

definition green_step :: "world \<Rightarrow> world" where
  "green_step st =
     (let st1 = update_signal_values st in
      if red (signals st1 ! ((current_green st1 + 1) mod NO_OF_SIGNALS)) = DETECTION_TIME
      then calculate_green_time st1 else st1)"

partial_function (option) green_phase :: "world \<Rightarrow> world option" where
  "green_phase st =
     (if green (signals st ! current_green st) > 0 then green_phase (green_step st) else Some st)"

text \<open>Entering yellow: lines \<open>current_yellow = 1\<close> and the reset of the stop positions.\<close>

definition enter_yellow :: "world \<Rightarrow> world" where
  "enter_yellow st =
     fold (\<lambda>i w. set_lane (DIRECTIONS (current_green w)) i
                    (map (\<lambda>vehicle. vehicle\<lparr>stop := DEFAULT_STOPS (DIRECTIONS (current_green w))\<rparr>)
                         (vehicles w (DIRECTIONS (current_green w)) i)) w)
          [0..<3] (st\<lparr>current_yellow := 1\<rparr>)"

partial_function (option) yellow_phase :: "world \<Rightarrow> world option" where
  "yellow_phase st =
     (if yellow (signals st ! current_green st) > 0 then yellow_phase (update_signal_values st)
      else Some st)"

definition leave_yellow :: "world \<Rightarrow> world" where
  "leave_yellow st =
     st\<lparr>current_yellow := 0,
        signals := (signals st)[current_green st :=
                     (signals st ! current_green st)\<lparr>yellow := DEFAULT_YELLOW, red := DEFAULT_RED\<rparr>]\<rparr>"

text \<open>
  One pass of the outer loop, from the state of the local variables and the globals. The
  pass that finds no approach sleeps and returns; a pass that raises returns the error;
  \<open>None\<close> stands for a green or yellow loop that does not return.
\<close>

definition signal_cycle :: "bool \<Rightarrow> world \<Rightarrow> (error + bool \<times> world) option" where
  "signal_cycle bound st =
     (let (selected, bound') =
            (case earliest_emergency_lane st of
               Some lane_idx \<Rightarrow> (Some lane_idx, bound)
             | None \<Rightarrow>
                 (case select_normal st of
                    None \<Rightarrow> (None, bound)
                  | Some lane_idx \<Rightarrow> (Some lane_idx, True)))
      in case selected of
           None \<Rightarrow> Some (Inr (bound', st))
         | Some selected_lane \<Rightarrow>
             (case set_green selected_lane bound' st of
                Inl e \<Rightarrow> Some (Inl e)
              | Inr st1 \<Rightarrow>
                  (case green_phase st1 of
                     None \<Rightarrow> None
                   | Some st2 \<Rightarrow>
                       (case yellow_phase (enter_yellow st2) of
                          None \<Rightarrow> None
                        | Some st3 \<Rightarrow> Some (Inr (bound', leave_yellow st3))))))"

section \<open>Clock and vehicle generator\<close>

definition simulation_timer_tick :: "world \<Rightarrow> world" where
  "simulation_timer_tick st = st\<lparr>time_elapsed := time_elapsed st + 1\<rparr>"

text \<open>
  \<open>Vehicle.__init__\<close> with \<open>_set_stop_position\<close>. \<open>load d c\<close> stands for the image file
  of class \<open>c\<close> in direction \<open>d\<close>.
\<close>

definition set_stop_position :: "direction \<Rightarrow> vehicle list \<Rightarrow> vehicle \<Rightarrow> real" where
  "set_stop_position d lane_list self =
     (if length lane_list > 1 \<and> \<not> crossed (lane_list ! (index self - 1)) then
        (let prev_vehicle = lane_list ! (index self - 1) in
         case d of
           Right \<Rightarrow> stop prev_vehicle - width prev_vehicle - STOPPING_GAP
         | Left \<Rightarrow> stop prev_vehicle + width prev_vehicle + STOPPING_GAP
         | Down \<Rightarrow> stop prev_vehicle - height prev_vehicle - STOPPING_GAP
         | Up \<Rightarrow> stop prev_vehicle + height prev_vehicle + STOPPING_GAP)
      else DEFAULT_STOPS d)"

definition new_vehicle ::
  "(direction \<Rightarrow> vclass \<Rightarrow> int \<Rightarrow> nat \<times> nat) \<Rightarrow> nat \<Rightarrow> vclass \<Rightarrow> nat \<Rightarrow> direction \<Rightarrow> bool \<Rightarrow> world \<Rightarrow> world" where
  "new_vehicle load lane_no c dn d wt st =
     (let self = \<lparr>lane = lane_no, vehicle_class = c, direction_number = dn, direction = d,
                  x = fst (SPAWN_COORDS d) ! lane_no, y = snd (SPAWN_COORDS d) ! lane_no,
                  crossed = False, will_turn = wt, turned = False, rotate_angle = 0,
                  waiting_time = 0, spawn_time = time_elapsed st, cross_time = None,
                  index = length (vehicles st d lane_no),
                  original_image = load d c, current_image = load d c 0,
                  stop = 0\<rparr>;
          lane_list = vehicles st d lane_no @ [self]
      in set_lane d lane_no (vehicles st d lane_no @ [self\<lparr>stop := set_stop_position d lane_list self\<rparr>]) st)"

text \<open>
  The turn decision of \<open>generate_vehicles\<close>; \<open>draw\<close> is the value of
  \<open>random.randint(0, 4)\<close>.
\<close>

definition choose_will_turn :: "nat \<Rightarrow> nat \<Rightarrow> bool" where
  "choose_will_turn lane_number draw = (if lane_number = 2 then draw \<le> 2 else False)"

text \<open>
  One iteration of \<open>generate_vehicles\<close>. The random values are arguments:
  \<open>u\<close> for \<open>random.random()\<close>, \<open>t\<close> for \<open>randint(0, 4)\<close> of the class, \<open>lane_number\<close>,
  \<open>dir_number\<close> for \<open>direction_number\<close>, and \<open>draw\<close> for the turn.
\<close>

definition generate_vehicle ::
  "(direction \<Rightarrow> vclass \<Rightarrow> int \<Rightarrow> nat \<times> nat) \<Rightarrow> real \<Rightarrow> nat \<Rightarrow> nat \<Rightarrow> nat \<Rightarrow> nat \<Rightarrow> world \<Rightarrow> world" where
  "generate_vehicle load u t lane_number dir_number draw st =
     (let vehicle_type = (if u < 0.015 then 5 else t)
      in new_vehicle load lane_number (VEHICLE_TYPES vehicle_type) dir_number
           (DIRECTIONS dir_number) (choose_will_turn lane_number draw) st)"

text \<open>\<open>initialize_signals\<close>, up to its call of the signal loop.\<close>

definition initialize_signals :: "world \<Rightarrow> world" where
  "initialize_signals st =
     (let ts1 = \<lparr>red = 0, yellow = DEFAULT_YELLOW, green = DEFAULT_GREEN,
                 minimum = DEFAULT_MINIMUM, maximum = DEFAULT_MAXIMUM, total_green_time = 0\<rparr>;
          ts2 = \<lparr>red = red ts1 + yellow ts1 + green ts1, yellow = DEFAULT_YELLOW, green = DEFAULT_GREEN,
                 minimum = DEFAULT_MINIMUM, maximum = DEFAULT_MAXIMUM, total_green_time = 0\<rparr>;
          ts3 = \<lparr>red = DEFAULT_RED, yellow = DEFAULT_YELLOW, green = DEFAULT_GREEN,
                 minimum = DEFAULT_MINIMUM, maximum = DEFAULT_MAXIMUM, total_green_time = 0\<rparr>;
          ts4 = \<lparr>red = DEFAULT_RED, yellow = DEFAULT_YELLOW, green = DEFAULT_GREEN,
                 minimum = DEFAULT_MINIMUM, maximum = DEFAULT_MAXIMUM, total_green_time = 0\<rparr>
      in st\<lparr>signals := signals st @ [ts1, ts2, ts3, ts4]\<rparr>)"

text \<open>The module-level globals before any thread has run.\<close>

definition initial_world :: world where
  "initial_world =
     \<lparr>vehicles = (\<lambda>d l. []), crossed_count = (\<lambda>d. 0), signals = [], time_elapsed = 0,
      current_green = 0, current_yellow = 0,
      lane_last_green_time = replicate NO_OF_SIGNALS 0, waiting_times = []\<rparr>"

section \<open>Notions of the specification and concrete inputs\<close>

text \<open>
  The distance of a vehicle's leading edge from the stop line of its approach, with the
  leading edge that \<open>_check_crossing\<close> compares against \<open>STOP_LINES\<close>.
\<close>

definition distance_to_stop_line :: "direction \<Rightarrow> vehicle \<Rightarrow> real" where
  "distance_to_stop_line d v =
     (case d of
        Right \<Rightarrow> STOP_LINES Right - (x v + width v)
      | Down \<Rightarrow> STOP_LINES Down - (y v + height v)
      | Left \<Rightarrow> x v - STOP_LINES Left
      | Up \<Rightarrow> y v - STOP_LINES Up)"

text \<open>
  A vehicle for concrete inputs: class, approach number, lane and position are given; its
  image is 40 wide and 20 high at every angle; it has not crossed, does not turn, and its
  stop position is the default one of its approach.
\<close>

definition sample_vehicle :: "vclass \<Rightarrow> nat \<Rightarrow> nat \<Rightarrow> real \<Rightarrow> real \<Rightarrow> vehicle" where
  "sample_vehicle c dn lane_no px py =
     \<lparr>lane = lane_no, vehicle_class = c, direction_number = dn, direction = DIRECTIONS dn,
      x = px, y = py, crossed = False, will_turn = False, turned = False, rotate_angle = 0,
      waiting_time = 0, spawn_time = 0, cross_time = None, index = 0,
      original_image = (\<lambda>a. (40, 20)), current_image = (40, 20),
      stop = DEFAULT_STOPS (DIRECTIONS dn)\<rparr>"

definition started_world :: world where
  "started_world = initialize_signals initial_world"

text \<open>
  Two emergency vehicles: one on approach 0 (right) whose leading edge is 50 before its
  stop line, one on approach 2 (left) that has just spawned, 600 before its stop line.
\<close>

definition emergency_near_right :: vehicle where
  "emergency_near_right = sample_vehicle Emergency 0 0 500 348"

definition emergency_far_left :: vehicle where
  "emergency_far_left = sample_vehicle Emergency 2 0 1400 498"

definition two_emergencies_world :: world where
  "two_emergencies_world =
     set_lane Right 0 [emergency_near_right] (set_lane Left 0 [emergency_far_left] started_world)"

text \<open>
  Five uncrossed vehicles in lane 0 of the right approach, the first an emergency vehicle.
\<close>

definition emergency_queue_world :: world where
  "emergency_queue_world =
     set_lane Right 0
       [sample_vehicle Emergency 0 0 500 348, sample_vehicle Car 0 0 440 348,
        sample_vehicle Car 0 0 380 348, sample_vehicle Car 0 0 320 348,
        sample_vehicle Car 0 0 260 348]
       started_world"

text \<open>
  A car of the left approach that has crossed and is far beyond the left edge of the
  scene, alone in its queue; and a car of the right approach beyond the right edge.
\<close>

definition gone_left_car :: vehicle where
  "gone_left_car = (sample_vehicle Car 2 0 (- 200) 498)\<lparr>crossed := True, cross_time := Some 0\<rparr>"

definition gone_left_world :: world where
  "gone_left_world = set_lane Left 0 [gone_left_car] started_world"

definition gone_right_car :: vehicle where
  "gone_right_car = (sample_vehicle Car 0 0 2000 348)\<lparr>crossed := True, cross_time := Some 0\<rparr>"

definition gone_right_world :: world where
  "gone_right_world = set_lane Right 0 [gone_right_car] started_world"

text \<open>Whether the emergency scan meets an uncrossed emergency vehicle.\<close>

definition emergency_waiting :: "world \<Rightarrow> bool" where
  "emergency_waiting st =
     (\<exists>p \<in> set (scanned_vehicles st). \<not> crossed (snd p) \<and> vehicle_class (snd p) = Emergency)"

text \<open>The priority of an approach: the first component of its entry.\<close>

definition priority :: "world \<Rightarrow> nat \<Rightarrow> real" where
  "priority st lane_idx = fst (priority_entry st lane_idx)"

text \<open>
  One waiting car on approach 0 and one on approach 1, clock 0, nothing served yet: both
  approaches have priority 1.
\<close>

definition tie_world :: world where
  "tie_world =
     set_lane Right 0 [sample_vehicle Car 0 0 0 348]
       (set_lane Down 0 [sample_vehicle Car 1 0 755 0] started_world)"

text \<open>
  The scenario of the specification: 12 waiting cars on approach 0, last served 40 seconds
  ago, and 3 on approach 1, last served 5 seconds ago.
\<close>

definition scenario_world :: world where
  "scenario_world =
     (set_lane Right 0 (replicate 12 (sample_vehicle Car 0 0 0 348))
        (set_lane Down 0 (replicate 3 (sample_vehicle Car 1 0 755 0)) started_world))
       \<lparr>time_elapsed := 40, lane_last_green_time := [0, 35, 0, 0]\<rparr>"

text \<open>
  One waiting car on approach 0, never served, and two on approach 1, last served at 5, at
  clock 23: the exact sums \<open>1 + 0.2 * 23\<close> and \<open>2 + 0.2 * 18\<close> are both 5.6.
\<close>

definition rounding_world :: world where
  "rounding_world =
     (set_lane Right 0 [sample_vehicle Car 0 0 0 348]
        (set_lane Down 0 (replicate 2 (sample_vehicle Car 1 0 755 0)) started_world))
       \<lparr>time_elapsed := 23, lane_last_green_time := [0, 5, 0, 0]\<rparr>"

text \<open>
  Approach 1 (down) is next after approach 0; 14 uncrossed cars wait in its lane 0 and 3
  uncrossed emergency vehicles in its lane 1.
\<close>

definition mixed_queue_world :: world where
  "mixed_queue_world =
     set_lane Down 0 (replicate 14 (sample_vehicle Car 1 0 755 0))
       (set_lane Down 1 (replicate 3 (sample_vehicle Emergency 1 1 727 0)) started_world)"

text \<open>
  The state in which the green loop is entered: four signals, an approach index in range,
  and the yellow flag down.
\<close>

definition green_ready :: "world \<Rightarrow> bool" where
  "green_ready st \<longleftrightarrow>
     length (signals st) = NO_OF_SIGNALS \<and> current_green st < NO_OF_SIGNALS \<and> current_yellow st = 0"

text \<open>
  Image files for concrete inputs: every image is 40 wide and 20 high. In
  \<open>chained_world\<close> two cars have spawned in lane 0 of the right approach and two buses
  in lane 2 of the left approach; the second vehicle of each queue has a chained stop.
\<close>

definition sample_load :: "direction \<Rightarrow> vclass \<Rightarrow> int \<Rightarrow> nat \<times> nat" where
  "sample_load d c a = (40, 20)"

definition chained_world :: world where
  "chained_world =
     new_vehicle sample_load 0 Car 0 Right False
       (new_vehicle sample_load 0 Car 0 Right False
          (new_vehicle sample_load 2 Bus 2 Left False
             (new_vehicle sample_load 2 Bus 2 Left False started_world)))"

text \<open>
  The updates that the motion functions apply to \<open>self\<close>: one speed step along the
  travel axis, one step of the rotation of a turn, one speed step along the new axis after
  the turn.
\<close>

definition advance :: "direction \<Rightarrow> vehicle \<Rightarrow> vehicle" where
  "advance d v =
     (case d of
        Right \<Rightarrow> v\<lparr>x := x v + speed v\<rparr>
      | Down \<Rightarrow> v\<lparr>y := y v + speed v\<rparr>
      | Left \<Rightarrow> v\<lparr>x := x v - speed v\<rparr>
      | Up \<Rightarrow> v\<lparr>y := y v - speed v\<rparr>)"

definition turn_displacement :: "direction \<Rightarrow> real \<times> real" where
  "turn_displacement d =
     (case d of Right \<Rightarrow> (2, 1.8) | Down \<Rightarrow> (- 2.5, 2) | Left \<Rightarrow> (- 1.8, - 2.5) | Up \<Rightarrow> (1, - 1))"

definition rotation_step :: "direction \<Rightarrow> vehicle \<Rightarrow> vehicle" where
  "rotation_step d v =
     v\<lparr>rotate_angle := rotate_angle v + ROTATION_ANGLE,
       current_image := original_image v (- (rotate_angle v + ROTATION_ANGLE)),
       x := x v + fst (turn_displacement d), y := y v + snd (turn_displacement d),
       turned := (rotate_angle v + ROTATION_ANGLE = 90)\<rparr>"

definition after_turn :: "direction \<Rightarrow> vehicle \<Rightarrow> vehicle" where
  "after_turn d v =
     (case d of
        Right \<Rightarrow> v\<lparr>y := y v + speed v\<rparr>
      | Down \<Rightarrow> v\<lparr>x := x v - speed v\<rparr>
      | Left \<Rightarrow> v\<lparr>y := y v - speed v\<rparr>
      | Up \<Rightarrow> v\<lparr>x := x v + speed v\<rparr>)"

text \<open>
  Leading and trailing edge of a vehicle along its direction of travel, as the gating
  conditions and \<open>_check_crossing\<close> compute them from position and image size, and the
  gap test of the straight and pre-turn branches against the vehicle ahead.
\<close>

definition leading_edge :: "direction \<Rightarrow> vehicle \<Rightarrow> real" where
  "leading_edge d v =
     (case d of Right \<Rightarrow> x v + width v | Down \<Rightarrow> y v + height v | Left \<Rightarrow> x v | Up \<Rightarrow> y v)"

definition trailing_edge :: "direction \<Rightarrow> vehicle \<Rightarrow> real" where
  "trailing_edge d v =
     (case d of Right \<Rightarrow> x v | Down \<Rightarrow> y v | Left \<Rightarrow> x v + width v | Up \<Rightarrow> y v + height v)"

definition gap_kept :: "direction \<Rightarrow> vehicle \<Rightarrow> vehicle \<Rightarrow> bool" where
  "gap_kept d v prev =
     (case d of
        Right \<Rightarrow> leading_edge d v < trailing_edge d prev - MOVING_GAP
      | Down \<Rightarrow> leading_edge d v < trailing_edge d prev - MOVING_GAP
      | Left \<Rightarrow> leading_edge d v > trailing_edge d prev + MOVING_GAP
      | Up \<Rightarrow> leading_edge d v > trailing_edge d prev + MOVING_GAP)"

text \<open>
  A turning vehicle rotates in a call of \<open>move\<close> when, after the crossing check, it has
  crossed, is no longer before the turn point of its direction and has not completed the
  turn. A vehicle of the left approach that has crossed takes \<open>_move_left_after_crossing\<close>
  and never rotates.
\<close>

definition before_turn_point :: "direction \<Rightarrow> vehicle \<Rightarrow> bool" where
  "before_turn_point d v =
     (case d of
        Right \<Rightarrow> x v + width v < fst (TURN_MIDPOINTS Right)
      | Down \<Rightarrow> y v + height v < snd (TURN_MIDPOINTS Down)
      | Left \<Rightarrow> x v > fst (TURN_MIDPOINTS Left)
      | Up \<Rightarrow> y v > snd (TURN_MIDPOINTS Up))"

definition turning_now :: "direction \<Rightarrow> vehicle \<Rightarrow> bool" where
  "turning_now d v \<longleftrightarrow>
     d \<noteq> Left \<and> will_turn v \<and> crossed v \<and> \<not> before_turn_point d v \<and> \<not> turned v"

text \<open>The branch on the direction in \<open>move\<close>.\<close>

definition dispatch :: "direction \<Rightarrow> nat \<Rightarrow> nat \<Rightarrow> nat \<Rightarrow> vehicle list \<Rightarrow> bool \<times> vehicle list" where
  "dispatch d cg cy idx lane_list =
     (case d of
        Right \<Rightarrow> move_right cg cy idx lane_list
      | Down \<Rightarrow> move_down cg cy idx lane_list
      | Left \<Rightarrow> move_left cg cy idx lane_list
      | Up \<Rightarrow> move_up cg cy idx lane_list)"

text \<open>The gate of a speed step for a vehicle that has not crossed.\<close>

definition gated :: "direction \<Rightarrow> nat \<Rightarrow> vehicle list \<Rightarrow> bool" where
  "gated d idx q \<longleftrightarrow>
     crossed (q ! idx) \<or> idx = 0 \<or> gap_kept d (q ! idx) (q ! (idx - 1)) \<or> turned (q ! (idx - 1))"

text \<open>
  The vehicle after the first two steps of \<open>move\<close>: the waiting time of an uncrossed
  vehicle is incremented and the crossing check is applied.
\<close>

definition entered :: "direction \<Rightarrow> int \<Rightarrow> vehicle \<Rightarrow> vehicle" where
  "entered d now v =
     (if crossed v then v
      else if passed_stop_line d v
      then v\<lparr>waiting_time := waiting_time v + 1, crossed := True, cross_time := Some now\<rparr>
      else v\<lparr>waiting_time := waiting_time v + 1\<rparr>)"

text \<open>
  The states that the threads can produce from the start, one operation at a time and in
  any order: the clock, the generator with draws in the ranges of its \<open>randint\<close> calls,
  the motion of any vehicle, and the steps of the signal loop.
\<close>

inductive reachable :: "world \<Rightarrow> bool" where
  start: "reachable started_world"
| clock: "reachable st \<Longrightarrow> reachable (simulation_timer_tick st)"
| spawn: "reachable st \<Longrightarrow> lane_number \<le> 2 \<Longrightarrow> dir_number \<le> 3 \<Longrightarrow> t \<le> 4 \<Longrightarrow> draw \<le> 4
          \<Longrightarrow> reachable (generate_vehicle load u t lane_number dir_number draw st)"
| motion: "reachable st \<Longrightarrow> reachable (move d l idx st)"
| grant: "reachable st \<Longrightarrow> select_lane st = Some sel \<Longrightarrow> reachable (grant_green sel st)"
| size: "reachable st \<Longrightarrow> size_green bound st = Inr st' \<Longrightarrow> reachable st'"
| timers: "reachable st \<Longrightarrow> reachable (update_signal_values st)"
| lookahead: "reachable st \<Longrightarrow> reachable (calculate_green_time st)"
| yellow: "reachable st \<Longrightarrow> reachable (enter_yellow st)"
| red: "reachable st \<Longrightarrow> reachable (leave_yellow st)"

text \<open>
  Time stamps of a vehicle at clock value \<open>now\<close>: it spawned no later than now, it has a
  crossing time exactly when it has crossed, and that time lies between spawn and now; a
  vehicle that has completed a turn has crossed.
\<close>

definition vehicle_inv :: "int \<Rightarrow> vehicle \<Rightarrow> bool" where
  "vehicle_inv now v \<longleftrightarrow>
     spawn_time v \<le> now
     \<and> (case cross_time v of
          None \<Rightarrow> \<not> crossed v
        | Some t \<Rightarrow> crossed v \<and> spawn_time v \<le> t \<and> t \<le> now)
     \<and> (turned v \<longrightarrow> crossed v)"

definition world_inv :: "world \<Rightarrow> bool" where
  "world_inv st \<longleftrightarrow> (\<forall>d l. \<forall>v \<in> set (vehicles st d l). vehicle_inv (time_elapsed st) v)"

text \<open>
  At clock 7 a car that spawned at 0 stands with its leading edge at 600, beyond the stop
  line 590 of the right approach. In \<open>wide_world\<close> the generator has spawned a car whose
  image is 600 wide, so that its leading edge is beyond the stop line from the start, and
  the clock has ticked once.
\<close>

definition crossing_world :: world where
  "crossing_world = set_lane Right 0 [sample_vehicle Car 0 0 560 348] (started_world\<lparr>time_elapsed := 7\<rparr>)"

definition wide_load :: "direction \<Rightarrow> vclass \<Rightarrow> int \<Rightarrow> nat \<times> nat" where
  "wide_load d c a = (600, 20)"

definition wide_world :: world where
  "wide_world = simulation_timer_tick (generate_vehicle wide_load 1 0 0 0 4 started_world)"

text \<open>
  The motion bound as the specification states it: the position changes along one axis
  by at most the class speed, or not at all.
\<close>

definition within_one_speed_step :: "vehicle \<Rightarrow> vehicle \<Rightarrow> bool" where
  "within_one_speed_step v v' \<longleftrightarrow>
     (x v' = x v \<and> y v' = y v)
     \<or> (\<bar>x v' - x v\<bar> \<le> speed v \<and> y v' = y v)
     \<or> (x v' = x v \<and> \<bar>y v' - y v\<bar> \<le> speed v)"

text \<open>
  A turning car of the right approach, alone in lane 2, that has crossed; its leading edge
  is at 710, beyond the turn point 705, and its rotation has not begun.
\<close>

definition turning_car :: vehicle where
  "turning_car =
     (sample_vehicle Car 0 2 670 398)\<lparr>will_turn := True, crossed := True, cross_time := Some 0\<rparr>"

definition turning_world :: world where
  "turning_world = set_lane Right 2 [turning_car] started_world"

text \<open>
  The order of a lane queue. \<open>behind d f p\<close>: the leading edge of \<open>f\<close> lies behind the
  trailing edge of \<open>p\<close> along the direction of travel. \<open>fifo d q\<close>: of any two uncrossed
  vehicles of the queue, the one later in the queue is behind the earlier one.
  \<open>along d c\<close> is the coordinate \<open>c\<close> counted in the direction of travel.
\<close>

definition behind :: "direction \<Rightarrow> vehicle \<Rightarrow> vehicle \<Rightarrow> bool" where
  "behind d follower pred =
     (case d of
        Right \<Rightarrow> leading_edge d follower < trailing_edge d pred
      | Down \<Rightarrow> leading_edge d follower < trailing_edge d pred
      | Left \<Rightarrow> leading_edge d follower > trailing_edge d pred
      | Up \<Rightarrow> leading_edge d follower > trailing_edge d pred)"

definition fifo :: "direction \<Rightarrow> vehicle list \<Rightarrow> bool" where
  "fifo d q \<longleftrightarrow>
     (\<forall>j < length q. \<forall>i < j. \<not> crossed (q ! i) \<and> \<not> crossed (q ! j) \<longrightarrow> behind d (q ! j) (q ! i))"

definition along :: "direction \<Rightarrow> real \<Rightarrow> real" where
  "along d c = (case d of Right \<Rightarrow> c | Down \<Rightarrow> c | Left \<Rightarrow> - c | Up \<Rightarrow> - c)"

text \<open>
  \<open>coordinate d v\<close> is the coordinate of \<open>v\<close> that a speed step of direction \<open>d\<close>
  changes, \<open>position d v\<close> the same counted in the direction of travel. \<open>not_ahead d f p\<close>:
  vehicle \<open>f\<close> has not travelled farther than \<open>p\<close>.
\<close>

definition coordinate :: "direction \<Rightarrow> vehicle \<Rightarrow> real" where
  "coordinate d v = (case d of Right \<Rightarrow> x v | Down \<Rightarrow> y v | Left \<Rightarrow> x v | Up \<Rightarrow> y v)"

definition position :: "direction \<Rightarrow> vehicle \<Rightarrow> real" where
  "position d v = along d (coordinate d v)"

definition not_ahead :: "direction \<Rightarrow> vehicle \<Rightarrow> vehicle \<Rightarrow> bool" where
  "not_ahead d follower pred =
     (case d of
        Right \<Rightarrow> x follower \<le> x pred
      | Down \<Rightarrow> y follower \<le> y pred
      | Left \<Rightarrow> x pred \<le> x follower
      | Up \<Rightarrow> y pred \<le> y follower)"

text \<open>
  The image files are not part of the sources. \<open>sized v\<close>: the unrotated image of \<open>v\<close>
  is at most 100 wide and 100 high. \<open>beyond d v\<close>: \<open>v\<close> is past the region of approach
  \<open>d\<close> in which vehicles queue: at or past the point where a sized vehicle begins its
  turn (right, down, up), or with its trailing edge off the scene (left, the test of
  \<open>_move_left_after_crossing\<close>).
\<close>

definition image_limit :: nat where
  "image_limit = 100"

definition sized :: "vehicle \<Rightarrow> bool" where
  "sized v \<longleftrightarrow> fst (original_image v 0) \<le> image_limit \<and> snd (original_image v 0) \<le> image_limit"

definition beyond :: "direction \<Rightarrow> vehicle \<Rightarrow> bool" where
  "beyond d v =
     (case d of
        Right \<Rightarrow> fst (TURN_MIDPOINTS Right) - real image_limit \<le> x v
      | Down \<Rightarrow> snd (TURN_MIDPOINTS Down) - real image_limit \<le> y v
      | Left \<Rightarrow> x v + width v \<le> 0
      | Up \<Rightarrow> y v \<le> snd (TURN_MIDPOINTS Up))"

text \<open>
  The spawn coordinate along the travel axis is the same for the three lanes of an
  approach. \<open>placed d v\<close> collects what holds of every vehicle of approach \<open>d\<close>: a vehicle
  that rotates or has turned is not of the left approach and, if sized, is beyond the
  queueing region; an unrotated vehicle shows its original image; no vehicle is behind
  its spawn point; an uncrossed vehicle is not beyond the queueing region.
  \<open>queue_order d q\<close>: every vehicle of the queue is not ahead of each earlier one that is
  still in the queueing region. \<open>lane_inv\<close> is the invariant of a lane queue.
\<close>

definition spawn_coordinate :: "direction \<Rightarrow> real" where
  "spawn_coordinate d =
     (case d of
        Right \<Rightarrow> hd (fst (SPAWN_COORDS Right))
      | Down \<Rightarrow> hd (snd (SPAWN_COORDS Down))
      | Left \<Rightarrow> hd (fst (SPAWN_COORDS Left))
      | Up \<Rightarrow> hd (snd (SPAWN_COORDS Up)))"

definition placed :: "direction \<Rightarrow> vehicle \<Rightarrow> bool" where
  "placed d v \<longleftrightarrow>
     (turned v \<or> rotate_angle v \<noteq> 0 \<longrightarrow> d \<noteq> Left \<and> (sized v \<longrightarrow> beyond d v))
     \<and> (rotate_angle v = 0 \<longrightarrow> current_image v = original_image v 0)
     \<and> along d (spawn_coordinate d) \<le> position d v
     \<and> (\<not> crossed v \<longrightarrow> \<not> beyond d v)"

definition queue_order :: "direction \<Rightarrow> vehicle list \<Rightarrow> bool" where
  "queue_order d q \<longleftrightarrow>
     (\<forall>j < length q. \<forall>i < j. not_ahead d (q ! j) (q ! i) \<or> beyond d (q ! i))"

definition lane_inv :: "direction \<Rightarrow> vehicle list \<Rightarrow> bool" where
  "lane_inv d q \<longleftrightarrow>
     (\<forall>v \<in> set q. placed d v)
     \<and> (d = Left \<or> (\<forall>v \<in> set q. sized v) \<longrightarrow> queue_order d q)"


text \<open>
  \<open>spaced_world\<close>: from \<open>chained_world\<close> the first car of lane 0 of the right approach
  has been moved 100 times; the second car is still at its spawn point.
\<close>

definition spaced_world :: world where
  "spaced_world = (move Right 0 0 ^^ 100) chained_world"


section \<open>Properties\<close>

lemma upt3: "[0..<3] = [0, 1, 2]"
  by (simp add: upt_rec)

lemma upt_signals: "[0..<NO_OF_SIGNALS] = [0, 1, 2, 3]"
  by (simp add: NO_OF_SIGNALS_def upt_rec)

lemmas world_defs =
  started_world_def initial_world_def initialize_signals_def set_lane_def sample_vehicle_def
  DEFAULT_RED_def DEFAULT_YELLOW_def DEFAULT_GREEN_def DEFAULT_MINIMUM_def DEFAULT_MAXIMUM_def

subsection \<open>Floating-point arithmetic\<close>

lemma py_round_int: "py_round (real_of_int k) = k"
  by (simp add: py_round_def)

lemma py_round_ge_floor: "\<lfloor>r\<rfloor> \<le> py_round r"
  by (simp add: py_round_def Let_def)

lemma round_double_zero: "round_double 0 = 0"
  by (simp add: round_double_def)

lemma round_double_unfold:
  assumes "r \<noteq> 0" "2 powr real_of_int e \<le> \<bar>r\<bar>" "\<bar>r\<bar> < 2 powr real_of_int (e + 1)"
  shows "round_double r = 2 powr real_of_int (e - 52) * real_of_int (py_round (r / 2 powr real_of_int (e - 52)))"
proof -
  have "\<lfloor>log 2 \<bar>r\<bar>\<rfloor> = e"
    using assms by (subst floor_log_eq_powr_iff) (simp_all add: add.commute)
  then show ?thesis using assms(1) by (simp add: round_double_def Let_def)
qed

lemma round_double_pos:
  assumes "0 < r"
  shows "0 < round_double r"
proof -
  define e where "e = \<lfloor>log 2 \<bar>r\<bar>\<rfloor>"
  define ulp where "ulp = 2 powr real_of_int (e - 52)"
  have ulp: "0 < ulp" by (simp add: ulp_def)
  have "2 powr real_of_int e \<le> \<bar>r\<bar>"
    using assms floor_log_eq_powr_iff [of "\<bar>r\<bar>" 2 e] by (simp add: e_def)
  then have "2 powr real_of_int e \<le> r" using assms by simp
  then have "2 powr real_of_int e / ulp \<le> r / ulp"
    using ulp by (simp add: divide_right_mono)
  moreover have "2 powr real_of_int e / ulp = 2 powr 52"
    by (simp add: ulp_def powr_diff [symmetric])
  ultimately have "1 \<le> r / ulp"
    by (smt (verit) powr_ge_zero powr_mono powr_zero_eq_one)
  then have "1 \<le> \<lfloor>r / ulp\<rfloor>" by (simp add: le_floor_iff)
  with py_round_ge_floor [of "r / ulp"] have "0 < py_round (r / ulp)" by linarith
  then have "0 < ulp * real_of_int (py_round (r / ulp))"
    using ulp by simp
  then show ?thesis
    using assms by (simp add: round_double_def Let_def e_def ulp_def)
qed

lemma round_double_nonneg: "0 \<le> r \<Longrightarrow> 0 \<le> round_double r"
  using round_double_pos [of r] by (cases "r = 0") (auto simp: round_double_zero)

lemma round_double_ge1:
  assumes "1 \<le> \<bar>r\<bar> / 2 ^ k" "\<bar>r\<bar> / 2 ^ k < 2" "k \<le> 52"
  shows "round_double r = real_of_int (py_round (r * 2 ^ (52 - k))) / 2 ^ (52 - k)"
proof -
  have nz: "r \<noteq> 0"
  proof
    assume "r = 0"
    with assms(1) show False by simp
  qed
  have p: "2 powr real_of_int (int k) = 2 ^ k"
    by (simp add: powr_realpow)
  have q: "2 powr real_of_int (int k - 52) = 1 / 2 ^ (52 - k)"
  proof -
    have "real_of_int (int k - 52) = - real (52 - k)"
      using assms(3) by (simp add: of_nat_diff)
    then have "2 powr real_of_int (int k - 52) = 2 powr (- real (52 - k))"
      by (simp only:)
    also have "\<dots> = inverse (2 powr real (52 - k))"
      by (rule powr_minus)
    also have "2 powr real (52 - k) = 2 ^ (52 - k)"
      by (rule powr_realpow) simp
    finally show ?thesis by (simp only: inverse_eq_divide)
  qed
  have lo: "2 powr real_of_int (int k) \<le> \<bar>r\<bar>"
    unfolding p using assms(1) by (simp add: le_divide_eq)
  have hi: "\<bar>r\<bar> < 2 powr real_of_int (int k + 1)"
  proof -
    have "2 powr real_of_int (int k + 1) = 2 ^ Suc k"
      using powr_realpow [of 2 "Suc k"] by (simp add: add.commute)
    then show ?thesis using assms(2) by (simp add: divide_less_eq mult.commute)
  qed
  show ?thesis
    using round_double_unfold [OF nz lo hi] unfolding q by simp
qed

lemma round_double_lt1:
  assumes "1 \<le> \<bar>r\<bar> * 2 ^ k" "\<bar>r\<bar> * 2 ^ k < 2"
  shows "round_double r = real_of_int (py_round (r * 2 ^ (52 + k))) / 2 ^ (52 + k)"
proof -
  have nz: "r \<noteq> 0"
  proof
    assume "r = 0"
    with assms(1) show False by simp
  qed
  have p: "2 powr real_of_int (- int k) = 1 / 2 ^ k"
    by (simp add: powr_minus powr_realpow inverse_eq_divide)
  have q: "2 powr real_of_int (- int k - 52) = 1 / 2 ^ (52 + k)"
  proof -
    have "real_of_int (- int k - 52) = - real (52 + k)"
      by simp
    then have "2 powr real_of_int (- int k - 52) = 2 powr (- real (52 + k))"
      by (simp only:)
    also have "\<dots> = inverse (2 powr real (52 + k))"
      by (rule powr_minus)
    also have "2 powr real (52 + k) = 2 ^ (52 + k)"
      by (rule powr_realpow) simp
    finally show ?thesis by (simp only: inverse_eq_divide)
  qed
  have lo: "2 powr real_of_int (- int k) \<le> \<bar>r\<bar>"
    unfolding p using assms(1) by (simp add: divide_le_eq)
  have hi: "\<bar>r\<bar> < 2 powr real_of_int (- int k + 1)"
  proof -
    have "2 powr real_of_int (- int k + 1) = 2 powr (real_of_int (- int k) + 1)"
      by simp
    also have "\<dots> = 2 powr real_of_int (- int k) * 2 powr 1"
      by (rule powr_add)
    finally have e: "2 powr real_of_int (- int k + 1) = 1 / 2 ^ k * 2"
      unfolding p by simp
    show ?thesis unfolding e using assms(2) by (simp add: field_simps)
  qed
  show ?thesis
    using round_double_unfold [OF nz lo hi] unfolding q by simp
qed

lemma round_double_of_int:
  assumes "\<bar>n\<bar> < 2 ^ 53"
  shows "round_double (real_of_int n) = real_of_int n"
proof (cases "n = 0")
  case True
  then show ?thesis by (simp add: round_double_zero)
next
  case False
  define e where "e = \<lfloor>log 2 \<bar>real_of_int n\<bar>\<rfloor>"
  have pos: "0 < \<bar>real_of_int n\<bar>" using False by simp
  have "2 powr real_of_int e \<le> \<bar>real_of_int n\<bar> \<and> \<bar>real_of_int n\<bar> < 2 powr (real_of_int e + 1)"
    using floor_log_eq_powr_iff [of "\<bar>real_of_int n\<bar>" 2 e] pos by (simp add: e_def)
  then have lo: "2 powr real_of_int e \<le> \<bar>real_of_int n\<bar>"
    and hi: "\<bar>real_of_int n\<bar> < 2 powr real_of_int (e + 1)"
    by simp_all
  have "1 \<le> \<bar>n\<bar>" using False by simp
  then have "1 \<le> \<bar>real_of_int n\<bar>" by (metis of_int_1_le_iff of_int_abs)
  then have "0 \<le> log 2 \<bar>real_of_int n\<bar>" by simp
  then have e0: "0 \<le> e" by (simp add: e_def)
  have "\<bar>real_of_int n\<bar> < 2 ^ 53"
    using assms by (metis of_int_abs of_int_less_numeral_power_cancel_iff)
  then have "2 powr real_of_int e < 2 ^ 53"
    using lo by linarith
  moreover have "(2::real) powr 53 = 2 ^ 53"
    using powr_realpow [of 2 53] by simp
  ultimately have "2 powr real_of_int e < 2 powr 53"
    by (simp only:)
  then have "real_of_int e < 53" by (rule powr_less_cancel) simp
  then have e52: "e \<le> 52" by simp
  define m where "m = nat (52 - e)"
  have "real_of_int (e - 52) = - real m"
    using e52 by (simp add: m_def)
  then have "2 powr real_of_int (e - 52) = 2 powr (- real m)"
    by (simp only:)
  also have "\<dots> = inverse (2 powr real m)"
    by (rule powr_minus)
  also have "2 powr real m = 2 ^ m"
    by (rule powr_realpow) simp
  finally have ulp: "2 powr real_of_int (e - 52) = 1 / 2 ^ m"
    by (simp only: inverse_eq_divide)
  have nz: "real_of_int n \<noteq> 0" using False by simp
  have "real_of_int n / (1 / 2 ^ m) = real_of_int (n * 2 ^ m)"
    by simp
  then have "py_round (real_of_int n / (1 / 2 ^ m)) = n * 2 ^ m"
    by (simp only: py_round_int)
  then have "round_double (real_of_int n) = 1 / 2 ^ m * real_of_int (n * 2 ^ m)"
    using round_double_unfold [OF nz lo hi] unfolding ulp by (simp only:)
  then show ?thesis by simp
qed

lemma round_double_one: "round_double 1 = 1"
  using round_double_of_int [of 1] by simp

lemma round_double_numeral:
  "(numeral k :: int) < 2 ^ 53 \<Longrightarrow> round_double (numeral k) = numeral k"
  using round_double_of_int [of "numeral k"] by simp

lemma float_0_2_value: "float_0_2 = 3602879701896397 / 18014398509481984"
  unfolding float_0_2_def
  by (subst round_double_lt1 [of _ 3]) (simp_all add: py_round_def)

lemma float_of_int_exact: "\<bar>n\<bar> < 2 ^ 53 \<Longrightarrow> float_of_int n = real_of_int n"
  by (simp add: float_of_int_def round_double_of_int)


lemma float_0_2_pos: "0 < float_0_2"
  by (simp add: float_0_2_def round_double_pos)

lemmas float_evals =
  float_of_int_exact fmul_def fadd_def round_double_zero round_double_one round_double_numeral

text \<open>
  The priorities of the concrete inputs. \<open>0.2 * 40\<close> and \<open>0.2 * 5\<close> round to 8 and 1;
  \<open>1 + 0.2 * 23\<close> and \<open>2 + 0.2 * 18\<close> round to different doubles, the second by a tie to
  the even significand.
\<close>

lemma priority_value_12_40: "fadd (float_of_int 12) (fmul float_0_2 (float_of_int 40)) = 20"
proof -
  have a: "fmul float_0_2 (float_of_int 40) = 8"
    unfolding fmul_def float_0_2_value
    by (simp add: float_of_int_exact, subst round_double_ge1 [of _ 3]) (simp_all add: py_round_def)
  have b: "fadd (float_of_int 12) 8 = 20"
    by (simp add: float_evals)
  show ?thesis unfolding a by (rule b)
qed

lemma priority_value_3_5: "fadd (float_of_int 3) (fmul float_0_2 (float_of_int 5)) = 4"
proof -
  have a: "fmul float_0_2 (float_of_int 5) = 1"
    unfolding fmul_def float_0_2_value
    by (simp add: float_of_int_exact, subst round_double_ge1 [of _ 0]) (simp_all add: py_round_def)
  have b: "fadd (float_of_int 3) 1 = 4"
    by (simp add: float_evals)
  show ?thesis unfolding a by (rule b)
qed

lemma priority_value_1_23:
  "fadd (float_of_int 1) (fmul float_0_2 (float_of_int 23)) = 6305039478318695 / 1125899906842624"
proof -
  have a: "fmul float_0_2 (float_of_int 23) = 5179139571476071 / 1125899906842624"
    unfolding fmul_def float_0_2_value
    by (simp add: float_of_int_exact, subst round_double_ge1 [of _ 2]) (simp_all add: py_round_def)
  have b: "fadd (float_of_int 1) (5179139571476071 / 1125899906842624)
             = 6305039478318695 / 1125899906842624"
    by (simp add: fadd_def float_of_int_exact, subst round_double_ge1 [of _ 2])
      (simp_all add: py_round_def)
  show ?thesis unfolding a by (rule b)
qed

lemma priority_value_2_18:
  "fadd (float_of_int 2) (fmul float_0_2 (float_of_int 18)) = 3152519739159347 / 562949953421312"
proof -
  have a: "fmul float_0_2 (float_of_int 18) = 8106479329266893 / 2251799813685248"
    unfolding fmul_def float_0_2_value
    by (simp add: float_of_int_exact, subst round_double_ge1 [of _ 1]) (simp_all add: py_round_def)
  have b: "fadd (float_of_int 2) (8106479329266893 / 2251799813685248)
             = 3152519739159347 / 562949953421312"
    by (simp add: fadd_def float_of_int_exact, subst round_double_ge1 [of _ 2])
      (simp_all add: py_round_def)
  show ?thesis unfolding a by (rule b)
qed

subsection \<open>Emergency override\<close>

text \<open>
  Claim C1. With an uncrossed emergency vehicle present, the scheduler is to select the
  approach of the emergency vehicle nearest its stop line. For the approaches right and
  left the estimate grows as the vehicle nears its stop line, and estimates of different
  approaches are compared although they are coordinates on different scales. In
  \<open>two_emergencies_world\<close> the emergency vehicle on the right approach is 50 before its
  stop line and the one on the left approach 600 before its own; the scheduler selects
  approach 2, the left one.
\<close>

theorem emergency_selection_picks_farther_vehicle:
  "select_lane two_emergencies_world = Some 2
   \<and> distance_to_stop_line Right emergency_near_right = 50
   \<and> distance_to_stop_line Left emergency_far_left = 600
   \<and> arrival_estimate Right emergency_near_right = 500
   \<and> arrival_estimate Left emergency_far_left = - 1400"
  by (simp add: select_lane_def earliest_emergency_lane_def scanned_vehicles_def upt3 upt_signals
      two_emergencies_world_def emergency_near_right_def emergency_far_left_def world_defs
      DIRECTIONS_def scan_step_def arrival_estimate_def distance_to_stop_line_def width_def)

subsection \<open>Leaving the scene\<close>

text \<open>
  Claim C9. A crossed vehicle whose trailing edge is beyond the scene bound is to leave
  its queue. In \<open>_move_left_after_crossing\<close> the removal is reached only when the vehicle
  did not move, and a vehicle with no predecessor on the scene always moves; the other
  three directions never remove a vehicle. The crossed car of \<open>gone_left_world\<close>, alone
  in its queue with its right edge at -160, is moved on and stays queued; so does the
  crossed car of \<open>gone_right_world\<close> at 2000, beyond the right edge of the scene.
\<close>

theorem offscreen_vehicle_stays_queued:
  "crossed gone_left_car \<and> x gone_left_car + width gone_left_car = - 160
   \<and> vehicles (move Left 0 0 gone_left_world) Left 0 = [gone_left_car\<lparr>x := - 201.15\<rparr>]
   \<and> vehicles (move Right 0 0 gone_right_world) Right 0 = [gone_right_car\<lparr>x := 2001.15\<rparr>]"
  by (simp add: move_def gone_left_world_def gone_left_car_def gone_right_world_def
      gone_right_car_def world_defs check_crossing_def move_left_def
      move_left_after_crossing_def move_right_def move_right_straight_def speed_def width_def
      Let_def)

subsection \<open>Turn intent at spawn\<close>

text \<open>
  Claim C10. A generated vehicle can turn only in lane 2, and there with a probability of
  about 30 percent of the draw from 0..4. The generator sets \<open>will_turn\<close> for the draws
  0, 1 and 2, three of the five equally likely values, and never for the lanes 0 and 1;
  the vehicle it appends carries that flag.
\<close>

theorem will_turn_for_three_of_five_draws:
  "filter (choose_will_turn 2) [0, 1, 2, 3, 4] = [0, 1, 2]
   \<and> \<not> choose_will_turn 0 draw \<and> \<not> choose_will_turn 1 draw
   \<and> will_turn (last (vehicles (generate_vehicle load u t lane_number dn draw st)
                         (DIRECTIONS dn) lane_number))
       = choose_will_turn lane_number draw"
  by (simp add: generate_vehicle_def new_vehicle_def set_lane_def choose_will_turn_def Let_def)

subsection \<open>Normal priority\<close>

lemma fold_scan_None:
  "fold scan_step ps acc = None \<longleftrightarrow>
     acc = None \<and> (\<forall>p \<in> set ps. \<not> (\<not> crossed (snd p) \<and> vehicle_class (snd p) = Emergency))"
  by (induction ps arbitrary: acc) (auto simp: scan_step_def Let_def split: option.splits prod.splits)

lemma earliest_None: "earliest_emergency_lane st = None \<longleftrightarrow> \<not> emergency_waiting st"
  by (auto simp: earliest_emergency_lane_def emergency_waiting_def fold_scan_None)

lemma hd_rev_sort_Max:
  fixes ps :: "('a::linorder) list"
  assumes "ps \<noteq> []"
  shows "hd (rev (sort ps)) = Max (set ps)"
proof -
  have "rev (sort ps) \<noteq> []" using assms by (metis length_sort length_0_conv rev_is_Nil_conv)
  then obtain m rest where mr: "rev (sort ps) = m # rest" by (cases "rev (sort ps)") auto
  have "sorted_wrt (\<lambda>a b. b \<le> a) (rev (sort ps))"
    by (simp add: sorted_wrt_rev)
  then have ge: "\<forall>p \<in> set rest. p \<le> m" using mr by simp
  have "set ps = set (rev (sort ps))" by simp
  then have sp: "set ps = insert m (set rest)" using mr by simp
  have "Max (set ps) = m"
    by (rule Max_eqI) (use sp ge in auto)
  then show ?thesis using mr by simp
qed

lemma priorities_set:
  "set (priorities st) = {priority_entry st i | i. i < NO_OF_SIGNALS \<and> priority st i > 0}"
  by (auto simp: priorities_def priority_def)

lemma entry_idx: "fst (snd (priority_entry st i)) = i"
  by (simp add: priority_entry_def Let_def)

lemma priority_eq:
  "priority st i =
     (if waiting_count st i > 0
      then fadd (float_of_int (int (waiting_count st i)))
             (fmul float_0_2 (float_of_int (time_elapsed st - lane_last_green_time st ! i)))
      else 0)"
  by (simp add: priority_def priority_entry_def Let_def)

lemma priority_entry_eq:
  "priority_entry st i =
     (priority st i, i, waiting_count st i, time_elapsed st - lane_last_green_time st ! i)"
  by (simp add: priority_def priority_entry_def Let_def)

lemma priority_pos:
  assumes "waiting_count st i > 0" "lane_last_green_time st ! i \<le> time_elapsed st"
  shows "priority st i > 0"
proof -
  let ?waited = "time_elapsed st - lane_last_green_time st ! i"
  have c: "0 < float_of_int (int (waiting_count st i))"
    using assms(1) by (simp add: float_of_int_def round_double_pos)
  have "0 \<le> float_of_int ?waited"
    using assms(2) by (simp add: float_of_int_def round_double_nonneg)
  then have "0 \<le> float_0_2 * float_of_int ?waited"
    using float_0_2_pos by simp
  then have "0 \<le> fmul float_0_2 (float_of_int ?waited)"
    unfolding fmul_def by (rule round_double_nonneg)
  with c have "0 < float_of_int (int (waiting_count st i)) + fmul float_0_2 (float_of_int ?waited)"
    by (rule add_pos_nonneg)
  then have "0 < fadd (float_of_int (int (waiting_count st i))) (fmul float_0_2 (float_of_int ?waited))"
    unfolding fadd_def by (rule round_double_pos)
  then show ?thesis using assms(1) by (simp add: priority_eq)
qed

lemma select_normal_None: "select_normal st = None \<longleftrightarrow> (\<forall>i < NO_OF_SIGNALS. priority st i \<le> 0)"
proof -
  have "select_normal st = None \<longleftrightarrow> set (priorities st) = {}"
    by (simp add: select_normal_def Let_def)
  also have "\<dots> \<longleftrightarrow> (\<forall>i < NO_OF_SIGNALS. \<not> priority st i > 0)"
    unfolding priorities_set by blast
  finally show ?thesis by (simp add: not_less)
qed

lemma select_normal_Some:
  assumes "select_normal st = Some s"
  shows "s < NO_OF_SIGNALS \<and> priority st s > 0
     \<and> (\<forall>i < NO_OF_SIGNALS. priority st i \<le> priority st s)
     \<and> (\<forall>i < NO_OF_SIGNALS. priority st i = priority st s \<longrightarrow> i \<le> s)"
proof -
  let ?ps = "priorities st"
  from assms have ne: "?ps \<noteq> []" and s: "s = fst (snd (hd (rev (sort ?ps))))"
    by (auto simp: select_normal_def Let_def split: if_splits)
  have m: "hd (rev (sort ?ps)) = Max (set ?ps)" using ne by (rule hd_rev_sort_Max)
  have "Max (set ?ps) \<in> set ?ps" using ne by simp
  then obtain k where k: "k < NO_OF_SIGNALS" "priority st k > 0" "Max (set ?ps) = priority_entry st k"
    unfolding priorities_set by auto
  have sk: "s = k" using s m k by (simp add: entry_idx)
  have le: "priority_entry st i \<le> priority_entry st k" if "i < NO_OF_SIGNALS" "priority st i > 0" for i
  proof -
    have "priority_entry st i \<in> set ?ps" unfolding priorities_set using that by auto
    then have "priority_entry st i \<le> Max (set ?ps)" by simp
    then show ?thesis using k by simp
  qed
  have a: "priority st i \<le> priority st k" if "i < NO_OF_SIGNALS" for i
  proof (cases "priority st i > 0")
    case True
    from le[OF that True] show ?thesis by (auto simp: priority_def less_eq_prod_def)
  next
    case False then show ?thesis using k by simp
  qed
  have b: "i \<le> k" if "i < NO_OF_SIGNALS" "priority st i = priority st k" for i
  proof -
    have "priority st i > 0" using that k by simp
    from le[OF that(1) this] that(2) have "snd (priority_entry st i) \<le> snd (priority_entry st k)"
      by (auto simp: priority_def less_eq_prod_def)
    then have "fst (snd (priority_entry st i)) \<le> fst (snd (priority_entry st k))"
      by (auto simp: less_eq_prod_def)
    then show ?thesis by (simp add: entry_idx)
  qed
  show ?thesis using sk k a b by simp
qed


lemma select_lane_normal: "\<not> emergency_waiting st \<Longrightarrow> select_lane st = select_normal st"
  by (simp add: select_lane_def earliest_None[symmetric])

lemma tie_world_counts:
  "waiting_count tie_world 0 = 1" "waiting_count tie_world (Suc 0) = 1"
  "waiting_count tie_world 2 = 0" "waiting_count tie_world 3 = 0"
  by (simp_all add: waiting_count_def upt3 tie_world_def world_defs DIRECTIONS_def)

lemma tie_world_clock:
  "time_elapsed tie_world = 0" "lane_last_green_time tie_world = [0, 0, 0, 0]"
  by (simp_all add: tie_world_def world_defs NO_OF_SIGNALS_def numeral_eq_Suc)

lemma scenario_world_counts:
  "waiting_count scenario_world 0 = 12" "waiting_count scenario_world (Suc 0) = 3"
  "waiting_count scenario_world 2 = 0" "waiting_count scenario_world 3 = 0"
  by (simp_all add: waiting_count_def upt3 scenario_world_def world_defs DIRECTIONS_def)

lemma scenario_world_clock:
  "time_elapsed scenario_world = 40" "lane_last_green_time scenario_world = [0, 35, 0, 0]"
  by (simp_all add: scenario_world_def)

lemma rounding_world_counts:
  "waiting_count rounding_world 0 = 1" "waiting_count rounding_world (Suc 0) = 2"
  "waiting_count rounding_world 2 = 0" "waiting_count rounding_world 3 = 0"
  by (simp_all add: waiting_count_def upt3 rounding_world_def world_defs DIRECTIONS_def)

lemma rounding_world_clock:
  "time_elapsed rounding_world = 23" "lane_last_green_time rounding_world = [0, 5, 0, 0]"
  by (simp_all add: rounding_world_def)

text \<open>
  In \<open>rounding_world\<close> the exact sums of the two waiting approaches are equal, the
  computed priorities are not: approach 0 has the greater one and is selected.
\<close>

lemma rounded_priorities_differ:
  "real 1 + 0.2 * real_of_int (23 - 0) = real 2 + 0.2 * real_of_int (23 - 5)
   \<and> priority rounding_world 0 = 6305039478318695 / 2 ^ 50
   \<and> priority rounding_world 1 = 6305039478318694 / 2 ^ 50
   \<and> select_lane rounding_world = Some 0"
proof -
  have quiet: "\<not> emergency_waiting rounding_world"
    by (simp add: emergency_waiting_def scanned_vehicles_def upt3 upt_signals rounding_world_def
        world_defs DIRECTIONS_def)
  have p: "priority rounding_world 0 = 6305039478318695 / 1125899906842624"
    "priority rounding_world (Suc 0) = 3152519739159347 / 562949953421312"
    "priority rounding_world 2 = 0" "priority rounding_world 3 = 0"
    by (simp_all add: priority_eq rounding_world_counts rounding_world_clock
        priority_value_1_23 priority_value_2_18)
  have "select_normal rounding_world = Some 0"
    by (simp add: select_normal_def priorities_def upt_signals priority_entry_eq p
        less_eq_prod_def less_prod_def)
  then have "select_lane rounding_world = Some 0"
    using quiet by (simp add: select_lane_normal)
  then show ?thesis
    using p by simp
qed

text \<open>
  Claim C2, as stated: among approaches of equal priority the lowest index is selected.
  In \<open>tie_world\<close> no emergency vehicle waits, the approaches 0 and 1 both have priority 1
  and the others 0; the scheduler selects approach 1.
\<close>

theorem priority_tie_selects_higher_index:
  "\<not> emergency_waiting tie_world
   \<and> priority tie_world 0 = 1 \<and> priority tie_world 1 = 1
   \<and> priority tie_world 2 = 0 \<and> priority tie_world 3 = 0
   \<and> select_lane tie_world = Some 1"
proof -
  have quiet: "\<not> emergency_waiting tie_world"
    by (simp add: emergency_waiting_def scanned_vehicles_def upt3 upt_signals tie_world_def
        world_defs DIRECTIONS_def)
  have p: "priority tie_world 0 = 1" "priority tie_world (Suc 0) = 1"
    "priority tie_world 2 = 0" "priority tie_world 3 = 0"
    by (simp_all add: priority_eq tie_world_counts tie_world_clock float_evals)
  have "select_normal tie_world = Some 1"
    by (simp add: select_normal_def priorities_def upt_signals priority_entry_eq p
        less_eq_prod_def less_prod_def)
  then have "select_lane tie_world = Some 1"
    using quiet by (simp add: select_lane_normal)
  then show ?thesis
    using quiet p by simp
qed

text \<open>
  Claim C2, amended. When no uncrossed emergency vehicle waits, the priority of an
  approach with waiting vehicles is the float sum of its waiting count and of the float
  product of 0.2 and the seconds since it was last selected, each operation rounded to a
  double, and 0 for an approach with none. No approach is selected exactly when no
  priority is positive; when no approach was last served in the future, that is exactly
  when no approach has a waiting vehicle. A selected approach has waiting vehicles and a
  priority that no approach exceeds; an approach whose computed priority is strictly the
  highest is the one selected; among approaches of equal highest computed priority the
  one with the highest index is selected.
\<close>

theorem normal_selection:
  assumes "\<not> emergency_waiting st"
  shows "(\<forall>i. priority st i =
              (if waiting_count st i > 0
               then fadd (float_of_int (int (waiting_count st i)))
                      (fmul float_0_2
                         (float_of_int (time_elapsed st - lane_last_green_time st ! i)))
               else 0))
    \<and> (select_lane st = None \<longleftrightarrow> (\<forall>i < NO_OF_SIGNALS. priority st i \<le> 0))
    \<and> ((\<forall>i < NO_OF_SIGNALS. lane_last_green_time st ! i \<le> time_elapsed st) \<longrightarrow>
         (select_lane st = None \<longleftrightarrow> (\<forall>i < NO_OF_SIGNALS. waiting_count st i = 0)))
    \<and> (\<forall>s. select_lane st = Some s \<longrightarrow>
           s < NO_OF_SIGNALS \<and> waiting_count st s > 0
           \<and> (\<forall>i < NO_OF_SIGNALS. priority st i \<le> priority st s)
           \<and> (\<forall>i < NO_OF_SIGNALS. priority st i = priority st s \<longrightarrow> i \<le> s))
    \<and> (\<forall>k < NO_OF_SIGNALS.
           priority st k > 0 \<and> (\<forall>i < NO_OF_SIGNALS. i \<noteq> k \<longrightarrow> priority st i < priority st k)
           \<longrightarrow> select_lane st = Some k)"
proof -
  have sel: "select_lane st = select_normal st"
    using assms by (rule select_lane_normal)
  have formula: "\<forall>i. priority st i =
              (if waiting_count st i > 0
               then fadd (float_of_int (int (waiting_count st i)))
                      (fmul float_0_2
                         (float_of_int (time_elapsed st - lane_last_green_time st ! i)))
               else 0)"
    by (simp add: priority_eq)
  have none: "select_lane st = None \<longleftrightarrow> (\<forall>i < NO_OF_SIGNALS. priority st i \<le> 0)"
    by (simp add: sel select_normal_None)
  have idle: "select_lane st = None \<longleftrightarrow> (\<forall>i < NO_OF_SIGNALS. waiting_count st i = 0)"
    if served: "\<forall>i < NO_OF_SIGNALS. lane_last_green_time st ! i \<le> time_elapsed st"
  proof -
    have "priority st i \<le> 0 \<longleftrightarrow> waiting_count st i = 0" if "i < NO_OF_SIGNALS" for i
    proof (cases "waiting_count st i = 0")
      case True
      then show ?thesis by (simp add: priority_eq)
    next
      case False
      then have "priority st i > 0"
        using served that by (simp add: priority_pos)
      with False show ?thesis by simp
    qed
    with none show ?thesis by auto
  qed
  have some: "s < NO_OF_SIGNALS \<and> waiting_count st s > 0
           \<and> (\<forall>i < NO_OF_SIGNALS. priority st i \<le> priority st s)
           \<and> (\<forall>i < NO_OF_SIGNALS. priority st i = priority st s \<longrightarrow> i \<le> s)"
    if "select_lane st = Some s" for s
  proof -
    from that have n: "select_normal st = Some s" by (simp add: sel)
    note facts = select_normal_Some [OF n]
    from facts have "priority st s > 0" by simp
    then have "waiting_count st s > 0"
      by (simp add: priority_eq split: if_splits)
    with facts show ?thesis by simp
  qed
  have strict: "select_lane st = Some k"
    if k: "k < NO_OF_SIGNALS" "priority st k > 0"
      and above: "\<forall>i < NO_OF_SIGNALS. i \<noteq> k \<longrightarrow> priority st i < priority st k" for k
  proof -
    have "select_lane st \<noteq> None"
      using none k by (auto simp: not_le)
    then obtain s where s: "select_lane st = Some s" by auto
    from some [OF s] k have "s < NO_OF_SIGNALS" "priority st k \<le> priority st s" by auto
    with above have "s = k" by (auto simp: not_less [symmetric])
    with s show ?thesis by simp
  qed
  from formula none idle some strict show ?thesis
    by blast
qed

theorem normal_selection_witness:
  "\<not> emergency_waiting scenario_world
   \<and> waiting_count scenario_world 0 = 12 \<and> waiting_count scenario_world 1 = 3
   \<and> time_elapsed scenario_world - lane_last_green_time scenario_world ! 0 = 40
   \<and> time_elapsed scenario_world - lane_last_green_time scenario_world ! 1 = 5
   \<and> priority scenario_world 0 = 20 \<and> priority scenario_world 1 = 4
   \<and> select_lane scenario_world = Some 0"
proof -
  have quiet: "\<not> emergency_waiting scenario_world"
    by (simp add: emergency_waiting_def scanned_vehicles_def upt3 upt_signals
        scenario_world_def world_defs DIRECTIONS_def)
  have p: "priority scenario_world 0 = 20" "priority scenario_world 1 = 4"
    "priority scenario_world 2 = 0" "priority scenario_world 3 = 0"
    by (simp_all add: priority_eq scenario_world_counts scenario_world_clock
        priority_value_12_40 priority_value_3_5)
  have others: "\<forall>i < NO_OF_SIGNALS. i \<noteq> 0 \<longrightarrow> priority scenario_world i < priority scenario_world 0"
  proof (intro allI impI)
    fix i :: nat
    assume "i < NO_OF_SIGNALS" "i \<noteq> 0"
    then have "i = 1 \<or> i = 2 \<or> i = 3" by (auto simp: NO_OF_SIGNALS_def)
    then show "priority scenario_world i < priority scenario_world 0"
      using p by auto
  qed
  have first: "0 < NO_OF_SIGNALS" by (simp add: NO_OF_SIGNALS_def)
  have positive: "priority scenario_world 0 > 0" by (simp add: p)
  from normal_selection [OF quiet]
  have "\<forall>k < NO_OF_SIGNALS.
           priority scenario_world k > 0
           \<and> (\<forall>i < NO_OF_SIGNALS. i \<noteq> k \<longrightarrow> priority scenario_world i < priority scenario_world k)
           \<longrightarrow> select_lane scenario_world = Some k"
    by (elim conjE)
  with first positive others have "select_lane scenario_world = Some 0"
    by blast
  with quiet p show ?thesis
    by (simp add: scenario_world_counts scenario_world_clock)
qed

subsection \<open>Green time at selection\<close>

lemma py_round_between:
  assumes "real_of_int k - 1 / 2 < r" "r < real_of_int k + 1 / 2"
  shows "py_round r = k"
proof (cases "real_of_int k \<le> r")
  case True
  then have "\<lfloor>r\<rfloor> = k" using assms(2) by (simp add: floor_eq_iff)
  then show ?thesis using assms(2) by (simp add: py_round_def)
next
  case False
  then have "\<lfloor>r\<rfloor> = k - 1" using assms(1) by (simp add: floor_eq_iff)
  then show ?thesis using assms(1) by (simp add: py_round_def)
qed

lemma powr_085_power:
  fixes r :: real
  assumes "0 < r"
  shows "(r powr 0.85) ^ 20 = r ^ 17"
proof -
  have "(r powr 0.85) ^ 20 = (r powr 0.85) powr real 20"
    by (rule powr_realpow [symmetric]) (use assms in simp)
  also have "\<dots> = r powr (0.85 * real 20)"
    by (rule powr_powr)
  also have "0.85 * real 20 = real 17" by simp
  also have "r powr real 17 = r ^ 17"
    by (rule powr_realpow) (use assms in simp)
  finally show ?thesis .
qed

lemma powr_085_bounds:
  fixes r lo hi :: real
  assumes "0 < r" "lo ^ 20 < r ^ 17" "r ^ 17 < hi ^ 20" "0 \<le> hi"
  shows "lo < r powr 0.85" "r powr 0.85 < hi"
proof -
  have p: "(r powr 0.85) ^ 20 = r ^ 17" using assms(1) by (rule powr_085_power)
  have "lo ^ 20 < (r powr 0.85) ^ 20" using assms(2) p by simp
  then show "lo < r powr 0.85" by (rule power_less_imp_less_base) simp
  have "(r powr 0.85) ^ 20 < hi ^ 20" using assms(3) p by simp
  then show "r powr 0.85 < hi" by (rule power_less_imp_less_base) (rule assms(4))
qed

lemma nonlinear_green_time_5: "py_round (8 + 1.0 * (real 5 powr 0.85)) = 12" "nonlinear_green_time 5 = 12"
proof -
  have "7 / 2 < (5::real) powr 0.85"
    by (rule powr_085_bounds(1) [of 5 "7 / 2" 5]) (simp_all add: power_divide)
  moreover have "(5::real) powr 0.85 < 9 / 2"
    by (rule powr_085_bounds(2) [of 5 0 "9 / 2"]) (simp_all add: power_divide)
  ultimately have r: "py_round (8 + (5::real) powr 0.85) = 12"
    by (intro py_round_between) simp_all
  then show "py_round (8 + 1.0 * (real 5 powr 0.85)) = 12" by simp
  from r show "nonlinear_green_time 5 = 12"
    by (simp add: nonlinear_green_time_def DEFAULT_MINIMUM_def DEFAULT_MAXIMUM_def)
qed

lemma nonlinear_green_time_200: "nonlinear_green_time 200 = 60"
proof -
  have "52 < (200::real) powr 0.85"
    by (rule powr_085_bounds(1) [of 200 52 200]) simp_all
  then have "60 \<le> \<lfloor>8 + (200::real) powr 0.85\<rfloor>"
    by (simp add: le_floor_iff)
  with py_round_ge_floor [of "8 + (200::real) powr 0.85"]
  have "60 \<le> py_round (8 + (200::real) powr 0.85)" by linarith
  then show ?thesis
    by (simp add: nonlinear_green_time_def DEFAULT_MINIMUM_def DEFAULT_MAXIMUM_def)
qed

lemma emergency_queue_world_facts:
  "length (signals emergency_queue_world) = 4"
  "waiting_count emergency_queue_world 0 = 5"
  "emergency_waiting emergency_queue_world"
  "select_lane emergency_queue_world = Some 0"
  "green (signals (grant_green 0 emergency_queue_world) ! 0) = 20"
     apply (simp add: emergency_queue_world_def world_defs)
    apply (simp add: waiting_count_def upt3 emergency_queue_world_def world_defs DIRECTIONS_def)
    apply (simp add: emergency_waiting_def scanned_vehicles_def upt3 upt_signals
        emergency_queue_world_def world_defs DIRECTIONS_def)
   apply (simp add: select_lane_def earliest_emergency_lane_def scanned_vehicles_def upt3 upt_signals
      emergency_queue_world_def world_defs DIRECTIONS_def scan_step_def arrival_estimate_def)
  apply (simp add: grant_green_def emergency_queue_world_def world_defs)
  done

text \<open>
  Claim C3. The green time is \<open>round(8 + 1.0 * n ** 0.85)\<close> clamped to [10, 60] for the
  waiting count \<open>n\<close> of the selected approach: between 10 and 60 for every \<open>n\<close>, 10 for
  \<open>n = 0\<close> although the rounded value is 8, 12 for \<open>n = 5\<close>, 60 for \<open>n = 200\<close>. A pass
  whose printed line finds its local variables assigned stores this value in the green
  counter of the selected signal. A pass that selects by the emergency branch before any
  pass has selected by priority raises \<open>UnboundLocalError\<close> at the printed line, after the
  selection is recorded and before the green time is set: in \<open>emergency_queue_world\<close>
  approach 0 is selected with 5 waiting vehicles, the pass raises, and the green counter
  of signal 0 is still the default 20 where the sizing gives 12.
\<close>

theorem green_sizing_skipped_by_first_emergency_pass:
  "(nonlinear_green_time n = max 10 (min 60 (py_round (8 + 1.0 * (real n powr 0.85))))
      \<and> 10 \<le> nonlinear_green_time n \<and> nonlinear_green_time n \<le> 60)
   \<and> (py_round (8 + 1.0 * (real 0 powr 0.85)) = 8 \<and> nonlinear_green_time 0 = 10
      \<and> py_round (8 + 1.0 * (real 5 powr 0.85)) = 12 \<and> nonlinear_green_time 5 = 12
      \<and> nonlinear_green_time 200 = 60)
   \<and> (selected_lane < length (signals st) \<longrightarrow>
        (\<exists>st'. set_green selected_lane True st = Inr st'
           \<and> green (signals st' ! selected_lane)
               = nonlinear_green_time (waiting_count st selected_lane)))
   \<and> (emergency_waiting st \<longrightarrow>
        (\<exists>sel. select_lane st = Some sel \<and> set_green sel False st = Inl UnboundLocalError)
        \<and> signal_cycle False st = Some (Inl UnboundLocalError))
   \<and> (select_lane emergency_queue_world = Some 0
      \<and> waiting_count emergency_queue_world 0 = 5
      \<and> signal_cycle False emergency_queue_world = Some (Inl UnboundLocalError)
      \<and> green (signals (grant_green 0 emergency_queue_world) ! 0) = 20)"
proof -
  have formula: "nonlinear_green_time n = max 10 (min 60 (py_round (8 + 1.0 * (real n powr 0.85))))
      \<and> 10 \<le> nonlinear_green_time n \<and> nonlinear_green_time n \<le> 60"
    by (simp add: nonlinear_green_time_def DEFAULT_MINIMUM_def DEFAULT_MAXIMUM_def)
  have zero: "py_round (8 + 1.0 * (real 0 powr 0.85)) = 8"
    by (simp add: py_round_def)
  then have zero': "nonlinear_green_time 0 = 10"
    by (simp add: nonlinear_green_time_def DEFAULT_MINIMUM_def DEFAULT_MAXIMUM_def)
  note pins = zero zero' nonlinear_green_time_5 nonlinear_green_time_200
  have stored: "\<exists>st'. set_green selected_lane True st = Inr st'
           \<and> green (signals st' ! selected_lane)
               = nonlinear_green_time (waiting_count st selected_lane)"
    if "selected_lane < length (signals st)"
    using that
    by (simp add: set_green_def size_green_def grant_green_def Let_def waiting_count_def)
  have raises: "(\<exists>sel. select_lane st = Some sel \<and> set_green sel False st = Inl UnboundLocalError)
        \<and> signal_cycle False st = Some (Inl UnboundLocalError)"
    if "emergency_waiting st" for st
  proof -
    from that obtain lane_idx where "earliest_emergency_lane st = Some lane_idx"
      using earliest_None [of st] by auto
    then show ?thesis
      by (simp add: select_lane_def signal_cycle_def set_green_def size_green_def)
  qed
  have failing: "select_lane emergency_queue_world = Some 0
      \<and> waiting_count emergency_queue_world 0 = 5
      \<and> signal_cycle False emergency_queue_world = Some (Inl UnboundLocalError)
      \<and> green (signals (grant_green 0 emergency_queue_world) ! 0) = 20"
    using raises [OF emergency_queue_world_facts(3)]
    by (simp add: emergency_queue_world_facts)
  show ?thesis
    using formula pins stored raises failing by (intro conjI impI) blast+
qed

theorem green_sizing_skipped_by_first_emergency_pass_witness:
  "0 < length (signals emergency_queue_world)
   \<and> emergency_waiting emergency_queue_world
   \<and> waiting_count emergency_queue_world 0 = 5
   \<and> (\<exists>st'. set_green 0 True emergency_queue_world = Inr st' \<and> green (signals st' ! 0) = 12)
   \<and> set_green 0 False emergency_queue_world = Inl UnboundLocalError
   \<and> signal_cycle False emergency_queue_world = Some (Inl UnboundLocalError)
   \<and> green (signals (grant_green 0 emergency_queue_world) ! 0) = 20"
proof -
  note facts = emergency_queue_world_facts
  have len: "0 < length (signals emergency_queue_world)"
    by (simp add: facts)
  note sizing = green_sizing_skipped_by_first_emergency_pass [of 5 0 emergency_queue_world]
  from sizing len
  have "\<exists>st'. set_green 0 True emergency_queue_world = Inr st'
           \<and> green (signals st' ! 0) = nonlinear_green_time (waiting_count emergency_queue_world 0)"
    by blast
  moreover from sizing have "nonlinear_green_time 5 = 12"
    by blast
  moreover from sizing facts(3)
  have "(\<exists>sel. select_lane emergency_queue_world = Some sel
           \<and> set_green sel False emergency_queue_world = Inl UnboundLocalError)
        \<and> signal_cycle False emergency_queue_world = Some (Inl UnboundLocalError)"
    by blast
  ultimately show ?thesis
    using len facts by simp
qed


subsection \<open>Look-ahead estimate\<close>

lemma class_count_le_waiting: "class_count st (DIRECTIONS i) c \<le> waiting_count st i"
proof -
  have "length (filter (\<lambda>v. \<not> crossed v \<and> vehicle_class v = c) q) \<le> length (filter (\<lambda>v. \<not> crossed v) q)"
    for q :: "vehicle list"
    by (induction q) auto
  then show ?thesis
    unfolding class_count_def waiting_count_def upt3
    by (simp add: add_mono)
qed

lemma total_time_eq:
  "total_time st d =
     2 * real (class_count st d Car) + 2.5 * real (class_count st d Bus)
     + 2.5 * real (class_count st d Truck) + 2.25 * real (class_count st d Rickshaw)
     + 1 * real (class_count st d Bike) + 1 * real (class_count st d Emergency)"
  by (simp add: total_time_def counted_classes_def)

lemma total_time_empty: "waiting_count st i = 0 \<Longrightarrow> total_time st (DIRECTIONS i) = 0"
proof -
  assume z: "waiting_count st i = 0"
  have "class_count st (DIRECTIONS i) c = 0" for c
    using class_count_le_waiting [of st i c] z by simp
  then show ?thesis by (simp add: total_time_eq)
qed

lemma mixed_queue_counts:
  "class_count mixed_queue_world Down Car = 14" "class_count mixed_queue_world Down Emergency = 3"
  "class_count mixed_queue_world Down Bus = 0" "class_count mixed_queue_world Down Truck = 0"
  "class_count mixed_queue_world Down Rickshaw = 0" "class_count mixed_queue_world Down Bike = 0"
  by (simp_all add: class_count_def upt3 mixed_queue_world_def world_defs)

text \<open>
  Claim C7, as stated: when a sampled class has no clearance entry the estimate defaults
  to the minimum green 10. The emergency class has no entry in \<open>VEHICLE_TIMES\<close>; in
  \<open>mixed_queue_world\<close> three emergency vehicles and 14 cars wait on the next approach and
  the estimate stored for it is 11.
\<close>

theorem lookahead_counts_emergency_vehicles:
  "class_count mixed_queue_world Down Emergency = 3 \<and> VEHICLE_TIMES Emergency = None
   \<and> current_green mixed_queue_world = 0
   \<and> lookahead_green_time mixed_queue_world Down = 11
   \<and> green (signals (calculate_green_time mixed_queue_world) ! 1) = 11"
proof -
  have t: "total_time mixed_queue_world Down = 31"
    by (simp add: total_time_eq mixed_queue_counts)
  have l: "lookahead_green_time mixed_queue_world Down = 11"
    by (simp add: lookahead_green_time_def t DEFAULT_MINIMUM_def DEFAULT_MAXIMUM_def
        NO_OF_LANES_def ceiling_divide_eq_div_numeral)
  have cg: "current_green mixed_queue_world = 0" "length (signals mixed_queue_world) = 4"
    by (simp_all add: mixed_queue_world_def world_defs)
  have "green (signals (calculate_green_time mixed_queue_world) ! 1) = 11"
    by (simp add: calculate_green_time_def Let_def cg NO_OF_SIGNALS_def DIRECTIONS_def l)
  with l cg show ?thesis by (simp add: mixed_queue_counts)
qed

text \<open>
  Claim C7, amended. The look-ahead estimate for an approach is the ceiling of a third of
  the summed clearance costs of its uncrossed vehicles (2 per car, 2.5 per bus and per
  truck, 2.25 per rickshaw, 1 per bike, and 1 per vehicle of the emergency class, which
  has no clearance entry), clamped to [10, 60]. It is 10 when the approach has no
  uncrossed vehicle. \<open>calculate_green_time\<close> stores it as the green value of the
  approach after the current one.
\<close>

theorem lookahead_green_time_estimate:
  "lookahead_green_time st d =
     max 10 (min 60 \<lceil>(2 * real (class_count st d Car) + 2.5 * real (class_count st d Bus)
       + 2.5 * real (class_count st d Truck) + 2.25 * real (class_count st d Rickshaw)
       + 1 * real (class_count st d Bike) + 1 * real (class_count st d Emergency)) / 3\<rceil>)
   \<and> 10 \<le> lookahead_green_time st d \<and> lookahead_green_time st d \<le> 60
   \<and> (waiting_count st i = 0 \<longrightarrow> lookahead_green_time st (DIRECTIONS i) = 10)
   \<and> ((current_green st + 1) mod 4 < length (signals st) \<longrightarrow>
        green (signals (calculate_green_time st) ! ((current_green st + 1) mod 4))
          = lookahead_green_time st (DIRECTIONS ((current_green st + 1) mod 4)))"
proof -
  have formula: "lookahead_green_time st d =
     max 10 (min 60 \<lceil>(2 * real (class_count st d Car) + 2.5 * real (class_count st d Bus)
       + 2.5 * real (class_count st d Truck) + 2.25 * real (class_count st d Rickshaw)
       + 1 * real (class_count st d Bike) + 1 * real (class_count st d Emergency)) / 3\<rceil>)"
    unfolding lookahead_green_time_def total_time_eq
    by (simp add: DEFAULT_MINIMUM_def DEFAULT_MAXIMUM_def NO_OF_LANES_def)
  have bounds: "10 \<le> lookahead_green_time st d \<and> lookahead_green_time st d \<le> 60"
    by (simp add: lookahead_green_time_def DEFAULT_MINIMUM_def DEFAULT_MAXIMUM_def)
  have empty: "lookahead_green_time st (DIRECTIONS i) = 10" if "waiting_count st i = 0"
    using total_time_empty [OF that]
    by (simp add: lookahead_green_time_def DEFAULT_MINIMUM_def DEFAULT_MAXIMUM_def)
  have stored: "green (signals (calculate_green_time st) ! ((current_green st + 1) mod 4))
          = lookahead_green_time st (DIRECTIONS ((current_green st + 1) mod 4))"
    if "(current_green st + 1) mod 4 < length (signals st)"
    using that by (simp add: calculate_green_time_def Let_def NO_OF_SIGNALS_def)
  from formula bounds empty stored show ?thesis by blast
qed

theorem lookahead_green_time_estimate_witness:
  "waiting_count started_world 1 = 0
   \<and> (current_green started_world + 1) mod 4 < length (signals started_world)
   \<and> lookahead_green_time started_world (DIRECTIONS 1) = 10
   \<and> green (signals (calculate_green_time started_world) ! 1) = 10"
proof -
  have none: "waiting_count started_world 1 = 0"
    by (simp add: waiting_count_def upt3 world_defs)
  have cg: "current_green started_world = 0" "length (signals started_world) = 4"
    by (simp_all add: world_defs)
  from lookahead_green_time_estimate [of started_world "DIRECTIONS 1" 1] none cg
  show ?thesis by simp
qed

subsection \<open>Green loop and yellow entry\<close>

lemma enter_yellow_eq:
  "enter_yellow st =
     st\<lparr>current_yellow := 1,
        vehicles := (vehicles st)(DIRECTIONS (current_green st) :=
          (\<lambda>l. if l < 3
               then map (\<lambda>v. v\<lparr>stop := DEFAULT_STOPS (DIRECTIONS (current_green st))\<rparr>)
                        (vehicles st (DIRECTIONS (current_green st)) l)
               else vehicles st (DIRECTIONS (current_green st)) l))\<rparr>"
proof -
  let ?d = "DIRECTIONS (current_green st)"
  let ?r = "map (\<lambda>v. v\<lparr>stop := DEFAULT_STOPS ?d\<rparr>)"
  have "(vehicles st ?d)(0 := ?r (vehicles st ?d 0), Suc 0 := ?r (vehicles st ?d (Suc 0)),
                          2 := ?r (vehicles st ?d 2))
        = (\<lambda>l. if l < 3 then ?r (vehicles st ?d l) else vehicles st ?d l)"
    by (rule ext) (auto simp: numeral_3_eq_3 numeral_2_eq_2 less_Suc_eq)
  then show ?thesis
    unfolding enter_yellow_def upt3 by (simp add: set_lane_def)
qed

lemma update_signal_values_signals:
  assumes "length (signals st) = NO_OF_SIGNALS"
  shows "signals (update_signal_values st) =
           map (\<lambda>i. update_signal (current_green st) (current_yellow st) i (signals st ! i)) [0..<NO_OF_SIGNALS]"
proof -
  from assms obtain a b c d where s: "signals st = [a, b, c, d]"
    by (auto simp: NO_OF_SIGNALS_def numeral_eq_Suc length_Suc_conv)
  show ?thesis
    by (simp add: update_signal_values_def upt_signals s)
qed

lemma update_signal_values_nth:
  assumes "length (signals st) = NO_OF_SIGNALS" "i < NO_OF_SIGNALS"
  shows "signals (update_signal_values st) ! i = update_signal (current_green st) (current_yellow st) i (signals st ! i)"
  using assms by (simp add: update_signal_values_signals)

lemma update_signal_values_frame:
  "current_green (update_signal_values st) = current_green st"
  "current_yellow (update_signal_values st) = current_yellow st"
  "vehicles (update_signal_values st) = vehicles st"
  "time_elapsed (update_signal_values st) = time_elapsed st"
  by (simp_all add: update_signal_values_def)

lemma update_signal_values_length:
  "length (signals st) = NO_OF_SIGNALS \<Longrightarrow> length (signals (update_signal_values st)) = NO_OF_SIGNALS"
  by (simp add: update_signal_values_signals)

lemma green_step_facts:
  assumes "green_ready st"
  shows "green_ready (green_step st)"
    and "current_green (green_step st) = current_green st"
    and "vehicles (green_step st) = vehicles st"
    and "green (signals (green_step st) ! current_green st) = green (signals st ! current_green st) - 1"
proof -
  let ?u = "update_signal_values st"
  let ?n = "(current_green st + 1) mod NO_OF_SIGNALS"
  have len: "length (signals st) = NO_OF_SIGNALS" and cg: "current_green st < NO_OF_SIGNALS"
    and cy: "current_yellow st = 0"
    using assms by (simp_all add: green_ready_def)
  have n: "?n \<noteq> current_green st" "?n < NO_OF_SIGNALS"
    using cg by (auto simp: NO_OF_SIGNALS_def mod_Suc)
  have ug: "green (signals ?u ! current_green st) = green (signals st ! current_green st) - 1"
    using len cg cy by (simp add: update_signal_values_nth update_signal_def)
  have ulen: "length (signals ?u) = NO_OF_SIGNALS"
    using len by (rule update_signal_values_length)
  show "green_ready (green_step st)"
    using len cg cy ulen
    by (simp add: green_step_def green_ready_def Let_def calculate_green_time_def update_signal_values_frame)
  show "current_green (green_step st) = current_green st"
    by (simp add: green_step_def Let_def calculate_green_time_def update_signal_values_frame)
  show "vehicles (green_step st) = vehicles st"
    by (simp add: green_step_def Let_def calculate_green_time_def update_signal_values_frame)
  show "green (signals (green_step st) ! current_green st) = green (signals st ! current_green st) - 1"
    using ug n ulen
    by (simp add: green_step_def Let_def calculate_green_time_def update_signal_values_frame)
qed

lemma green_phase_returns:
  assumes "green_ready st"
  shows "\<exists>st1. green_phase st = Some st1
          \<and> green (signals st1 ! current_green st) = min 0 (green (signals st ! current_green st))
          \<and> current_green st1 = current_green st \<and> current_yellow st1 = 0
          \<and> vehicles st1 = vehicles st"
  using assms
proof (induction "nat (green (signals st ! current_green st))" arbitrary: st)
  case 0
  then have "\<not> green (signals st ! current_green st) > 0" by simp
  then show ?case
    using "0.prems" by (subst green_phase.simps) (simp add: green_ready_def)
next
  case (Suc k)
  then have pos: "green (signals st ! current_green st) > 0" by simp
  note f = green_step_facts [OF Suc.prems]
  have "k = nat (green (signals (green_step st) ! current_green (green_step st)))"
    using Suc.hyps(2) f by simp
  from Suc.hyps(1) [OF this f(1)] obtain st1 where
    st1: "green_phase (green_step st) = Some st1"
      "green (signals st1 ! current_green (green_step st)) = min 0 (green (signals (green_step st) ! current_green (green_step st)))"
      "current_green st1 = current_green (green_step st)" "current_yellow st1 = 0"
      "vehicles st1 = vehicles (green_step st)"
    by blast
  have "green_phase st = Some st1"
    using pos st1(1) by (subst green_phase.simps) simp
  then show ?case
    using st1 f pos by simp
qed


lemma fold_scan_lane:
  "fold scan_step ps acc = Some r \<Longrightarrow> acc = Some r \<or> snd r \<in> fst ` set ps"
proof (induction ps arbitrary: acc)
  case Nil
  then show ?case by simp
next
  case (Cons p ps)
  from Cons.IH [OF Cons.prems [simplified]]
  show ?case
    by (auto simp: scan_step_def Let_def split: prod.splits if_splits option.splits)
qed

lemma scanned_lanes: "fst ` set (scanned_vehicles st) \<subseteq> {0..<NO_OF_SIGNALS}"
  by (auto simp: scanned_vehicles_def)

lemma earliest_lane_range: "earliest_emergency_lane st = Some l \<Longrightarrow> l < NO_OF_SIGNALS"
proof -
  assume "earliest_emergency_lane st = Some l"
  then obtain r where r: "fold scan_step (scanned_vehicles st) None = Some r" "snd r = l"
    by (auto simp: earliest_emergency_lane_def)
  from fold_scan_lane [OF r(1)] have "snd r \<in> fst ` set (scanned_vehicles st)" by simp
  with scanned_lanes [of st] have "snd r \<in> {0..<NO_OF_SIGNALS}" by blast
  with r(2) show ?thesis by simp
qed

lemma select_normal_range: "select_normal st = Some s \<Longrightarrow> s < NO_OF_SIGNALS"
  using select_normal_Some [of st s] by simp

lemma select_lane_range: "select_lane st = Some s \<Longrightarrow> s < NO_OF_SIGNALS"
  by (auto simp: select_lane_def earliest_lane_range select_normal_range split: option.splits)

lemma nonlinear_bounds: "10 \<le> nonlinear_green_time n" "nonlinear_green_time n \<le> 60"
  by (simp_all add: nonlinear_green_time_def DEFAULT_MINIMUM_def DEFAULT_MAXIMUM_def)

lemma set_green_facts:
  assumes "length (signals st) = NO_OF_SIGNALS" "sel < NO_OF_SIGNALS" "current_yellow st = 0"
    and "set_green sel bound st = Inr st0"
  shows "green_ready st0" "current_green st0 = sel"
    "green (signals st0 ! sel) = nonlinear_green_time (waiting_count st sel)"
    "vehicles st0 = vehicles st"
  using assms
  by (auto simp: set_green_def size_green_def grant_green_def Let_def green_ready_def
      waiting_count_def split: if_splits)

lemma set_green_returns: "\<exists>st0. set_green sel True st = Inr st0"
  by (simp add: set_green_def size_green_def Let_def)

lemma signal_cycle_selected:
  assumes "select_lane st = Some sel" "bound \<or> \<not> emergency_waiting st"
  shows "signal_cycle bound st =
     (case set_green sel True st of
        Inl e \<Rightarrow> Some (Inl e)
      | Inr st1 \<Rightarrow>
          (case green_phase st1 of
             None \<Rightarrow> None
           | Some st2 \<Rightarrow>
               (case yellow_phase (enter_yellow st2) of
                  None \<Rightarrow> None
                | Some st3 \<Rightarrow> Some (Inr (True, leave_yellow st3)))))"
proof (cases "earliest_emergency_lane st")
  case None
  with assms(1) have "select_normal st = Some sel" by (simp add: select_lane_def)
  with None show ?thesis by (simp add: signal_cycle_def)
next
  case (Some lane_idx)
  with assms(1) have "lane_idx = sel" by (simp add: select_lane_def)
  moreover from Some have "emergency_waiting st"
    using earliest_None [of st] by simp
  with assms(2) have bound by simp
  ultimately show ?thesis using Some by (simp add: signal_cycle_def)
qed

text \<open>
  A pass that selects by the emergency branch before any pass has selected by the normal
  branch raises at the printed line.
\<close>

lemma first_emergency_pass_raises:
  assumes "emergency_waiting st"
  shows "signal_cycle False st = Some (Inl UnboundLocalError)"
proof -
  from assms obtain lane_idx where "earliest_emergency_lane st = Some lane_idx"
    using earliest_None [of st] by auto
  then show ?thesis
    by (simp add: signal_cycle_def set_green_def size_green_def)
qed

lemma cycle_reaches_yellow:
  assumes "length (signals st) = NO_OF_SIGNALS" "current_yellow st = 0" "select_lane st = Some sel"
    and "bound \<or> \<not> emergency_waiting st"
  shows "\<exists>st0 st1. set_green sel True st = Inr st0 \<and> green_phase st0 = Some st1
          \<and> green (signals st1 ! sel) = 0 \<and> current_green st1 = sel
          \<and> signal_cycle bound st =
                (case yellow_phase (enter_yellow st1) of
                   None \<Rightarrow> None
                 | Some st3 \<Rightarrow> Some (Inr (True, leave_yellow st3)))"
proof -
  have sel: "sel < NO_OF_SIGNALS" using assms(3) by (rule select_lane_range)
  obtain st0 where st0: "set_green sel True st = Inr st0"
    using set_green_returns by blast
  note g = set_green_facts [OF assms(1) sel assms(2) st0]
  from green_phase_returns [OF g(1)] obtain st1 where
    st1: "green_phase st0 = Some st1"
      "green (signals st1 ! sel) = min 0 (green (signals st0 ! sel))"
      "current_green st1 = sel"
    using g(2) by auto
  have zero: "green (signals st1 ! sel) = 0"
    using st1(2) g(3) nonlinear_bounds(1) [of "waiting_count st sel"] by simp
  have "signal_cycle bound st =
          (case yellow_phase (enter_yellow st1) of
             None \<Rightarrow> None
           | Some st3 \<Rightarrow> Some (Inr (True, leave_yellow st3)))"
    by (simp add: signal_cycle_selected [OF assms(3,4)] st0 st1(1))
  with st0 st1(1,3) zero show ?thesis by blast
qed

lemma chained_lanes:
  "vehicles chained_world Right 0 =
     [(sample_vehicle Car 0 0 0 348)\<lparr>index := 0, original_image := sample_load Right Car\<rparr>,
      (sample_vehicle Car 0 0 0 348)\<lparr>index := 1, original_image := sample_load Right Car, stop := 525\<rparr>]"
  "vehicles chained_world Left 2 =
     [(sample_vehicle Bus 2 2 1400 436)\<lparr>index := 0, original_image := sample_load Left Bus\<rparr>,
      (sample_vehicle Bus 2 2 1400 436)\<lparr>index := 1, original_image := sample_load Left Bus, stop := 865\<rparr>]"
  by (simp_all add: chained_world_def new_vehicle_def set_stop_position_def world_defs Let_def sample_load_def
       width_def STOPPING_GAP_def DIRECTIONS_def)

lemma chained_world_globals:
  "length (signals chained_world) = NO_OF_SIGNALS" "current_yellow chained_world = 0"
  "current_green chained_world = 0" "time_elapsed chained_world = 0"
  "lane_last_green_time chained_world = [0, 0, 0, 0]"
  by (simp_all add: chained_world_def new_vehicle_def world_defs Let_def NO_OF_SIGNALS_def
      numeral_eq_Suc)

lemma chained_world_queues:
  "vehicles chained_world Right (Suc 0) = []" "vehicles chained_world Right 2 = []"
  "vehicles chained_world Left 0 = []" "vehicles chained_world Left (Suc 0) = []"
  "vehicles chained_world Down l = []" "vehicles chained_world Up l = []"
  by (simp_all add: chained_world_def new_vehicle_def world_defs Let_def)

lemma chained_world_quiet: "\<not> emergency_waiting chained_world"
  by (simp add: emergency_waiting_def scanned_vehicles_def upt3 upt_signals DIRECTIONS_def
      chained_lanes chained_world_queues sample_vehicle_def)

lemma chained_world_selected: "select_lane chained_world = Some 2"
proof -
  note quiet = chained_world_quiet
  have counts: "waiting_count chained_world 0 = 2" "waiting_count chained_world (Suc 0) = 0"
    "waiting_count chained_world 2 = 2" "waiting_count chained_world 3 = 0"
    by (simp_all add: waiting_count_def upt3 DIRECTIONS_def chained_lanes chained_world_queues
        sample_vehicle_def)
  have "select_normal chained_world = Some 2"
    by (simp add: select_normal_def priorities_def upt_signals priority_entry_def counts
        chained_world_globals less_eq_prod_def less_prod_def float_evals)
  with quiet show ?thesis by (simp add: select_lane_normal)
qed

text \<open>
  Claim C8. Entering yellow raises the yellow flag and gives every vehicle in the lanes
  0, 1, 2 of the active approach the default stop position of that approach; each such
  vehicle is otherwise as before, the queues keep their order, the queues of the other
  approaches and every other global are unchanged. In a pass of the signal loop that
  selects an approach and does not raise at its printed line, the green loop returns with
  the green counter of that approach at zero, and yellow is entered from that state.
\<close>

theorem yellow_entry_resets_stops:
  "current_yellow (enter_yellow st) = 1
   \<and> (\<forall>l < 3. vehicles (enter_yellow st) (DIRECTIONS (current_green st)) l
                = map (\<lambda>v. v\<lparr>stop := DEFAULT_STOPS (DIRECTIONS (current_green st))\<rparr>)
                      (vehicles st (DIRECTIONS (current_green st)) l))
   \<and> (\<forall>d l. d \<noteq> DIRECTIONS (current_green st) \<longrightarrow> vehicles (enter_yellow st) d l = vehicles st d l)
   \<and> (\<forall>d l. 3 \<le> l \<longrightarrow> vehicles (enter_yellow st) d l = vehicles st d l)
   \<and> signals (enter_yellow st) = signals st
   \<and> current_green (enter_yellow st) = current_green st
   \<and> time_elapsed (enter_yellow st) = time_elapsed st
   \<and> crossed_count (enter_yellow st) = crossed_count st
   \<and> lane_last_green_time (enter_yellow st) = lane_last_green_time st
   \<and> waiting_times (enter_yellow st) = waiting_times st
   \<and> (length (signals st) = NO_OF_SIGNALS \<and> current_yellow st = 0 \<and> select_lane st = Some sel
        \<and> (bound \<or> \<not> emergency_waiting st) \<longrightarrow>
        (\<exists>st0 st1. set_green sel True st = Inr st0 \<and> green_phase st0 = Some st1
          \<and> green (signals st1 ! sel) = 0 \<and> current_green st1 = sel
          \<and> signal_cycle bound st =
                (case yellow_phase (enter_yellow st1) of
                   None \<Rightarrow> None
                 | Some st3 \<Rightarrow> Some (Inr (True, leave_yellow st3)))))"
  using cycle_reaches_yellow [of st sel bound]
  by (simp add: enter_yellow_eq)

theorem yellow_entry_resets_stops_witness:
  "map stop (vehicles chained_world Right 0) = [580, 525]
   \<and> map stop (vehicles (enter_yellow chained_world) Right 0) = [580, 580]
   \<and> map stop (vehicles chained_world Left 2) = [810, 865]
   \<and> vehicles (enter_yellow chained_world) Left 2 = vehicles chained_world Left 2
   \<and> length (signals chained_world) = NO_OF_SIGNALS \<and> current_yellow chained_world = 0
   \<and> select_lane chained_world = Some 2 \<and> \<not> emergency_waiting chained_world
   \<and> (\<exists>st0 st1. set_green 2 True chained_world = Inr st0 \<and> green_phase st0 = Some st1
          \<and> green (signals st1 ! 2) = 0 \<and> current_green st1 = 2
          \<and> signal_cycle False chained_world =
                (case yellow_phase (enter_yellow st1) of
                   None \<Rightarrow> None
                 | Some st3 \<Rightarrow> Some (Inr (True, leave_yellow st3))))"
proof -
  note inst = yellow_entry_resets_stops [of chained_world 2 False]
  have active: "DIRECTIONS (current_green chained_world) = Right"
    by (simp add: chained_world_globals DIRECTIONS_def)
  from inst have "\<forall>l < 3. vehicles (enter_yellow chained_world) Right l
      = map (\<lambda>v. v\<lparr>stop := DEFAULT_STOPS Right\<rparr>) (vehicles chained_world Right l)"
    unfolding active by (elim conjE)
  then have right: "vehicles (enter_yellow chained_world) Right 0
      = map (\<lambda>v. v\<lparr>stop := DEFAULT_STOPS Right\<rparr>) (vehicles chained_world Right 0)"
    by simp
  from inst have "\<forall>d l. d \<noteq> Right \<longrightarrow> vehicles (enter_yellow chained_world) d l = vehicles chained_world d l"
    unfolding active by (elim conjE)
  then have left: "vehicles (enter_yellow chained_world) Left 2 = vehicles chained_world Left 2"
    by simp
  from inst chained_world_globals(1,2) chained_world_selected chained_world_quiet
  have cycle: "\<exists>st0 st1. set_green 2 True chained_world = Inr st0 \<and> green_phase st0 = Some st1
          \<and> green (signals st1 ! 2) = 0 \<and> current_green st1 = 2
          \<and> signal_cycle False chained_world =
                (case yellow_phase (enter_yellow st1) of
                   None \<Rightarrow> None
                 | Some st3 \<Rightarrow> Some (Inr (True, leave_yellow st3)))"
    by (elim conjE) blast
  have stops: "map stop (vehicles chained_world Right 0) = [580, 525]"
    "map stop (vehicles chained_world Left 2) = [810, 865]"
    by (simp_all add: chained_lanes sample_vehicle_def DIRECTIONS_def)
  have "map stop (vehicles (enter_yellow chained_world) Right 0) = [580, 580]"
    by (simp add: right chained_lanes)
  with stops left cycle chained_world_globals(1,2) chained_world_selected chained_world_quiet
  show ?thesis
    by simp
qed

subsection \<open>Motion steps and the crossing transition\<close>

lemmas notion_defs = advance_def gap_kept_def leading_edge_def trailing_edge_def rotation_step_def
  after_turn_def turn_displacement_def before_turn_point_def turning_now_def gated_def

lemma right_cases:
  "(turning_now Right (q ! idx) \<longrightarrow> snd (move_right cg cy idx q) = q[idx := rotation_step Right (q ! idx)])
   \<and> (\<not> turning_now Right (q ! idx) \<longrightarrow>
        snd (move_right cg cy idx q) = q
      \<or> (snd (move_right cg cy idx q) = q[idx := advance Right (q ! idx)] \<and> gated Right idx q)
      \<or> (snd (move_right cg cy idx q) = q[idx := after_turn Right (q ! idx)] \<and> crossed (q ! idx)))"
  by (simp add: move_right_def move_right_straight_def move_right_turn_def Let_def notion_defs)

lemma down_cases:
  "(turning_now Down (q ! idx) \<longrightarrow> snd (move_down cg cy idx q) = q[idx := rotation_step Down (q ! idx)])
   \<and> (\<not> turning_now Down (q ! idx) \<longrightarrow>
        snd (move_down cg cy idx q) = q
      \<or> (snd (move_down cg cy idx q) = q[idx := advance Down (q ! idx)] \<and> gated Down idx q)
      \<or> (snd (move_down cg cy idx q) = q[idx := after_turn Down (q ! idx)] \<and> crossed (q ! idx)))"
  by (simp add: move_down_def move_down_straight_def move_down_turn_def Let_def notion_defs)

lemma up_cases:
  "(turning_now Up (q ! idx) \<longrightarrow> snd (move_up cg cy idx q) = q[idx := rotation_step Up (q ! idx)])
   \<and> (\<not> turning_now Up (q ! idx) \<longrightarrow>
        snd (move_up cg cy idx q) = q
      \<or> (snd (move_up cg cy idx q) = q[idx := advance Up (q ! idx)] \<and> gated Up idx q)
      \<or> (snd (move_up cg cy idx q) = q[idx := after_turn Up (q ! idx)] \<and> crossed (q ! idx)))"
  by (simp add: move_up_def move_up_straight_def move_up_turn_def Let_def notion_defs)

lemma left_cases:
  "snd (move_left cg cy idx q) = q
   \<or> (snd (move_left cg cy idx q) = q[idx := advance Left (q ! idx)] \<and> gated Left idx q)
   \<or> (crossed (q ! idx) \<and> x (q ! idx) + width (q ! idx) < - 10
       \<and> snd (move_left cg cy idx q) = take idx q @ drop (Suc idx) q)"
  by (simp add: move_left_def move_left_straight_def move_left_turn_def move_left_after_crossing_def
      Let_def notion_defs)

lemma dispatch_cases:
  "(turning_now d (q ! idx) \<longrightarrow> snd (dispatch d cg cy idx q) = q[idx := rotation_step d (q ! idx)])
   \<and> (\<not> turning_now d (q ! idx) \<longrightarrow>
        snd (dispatch d cg cy idx q) = q
      \<or> (snd (dispatch d cg cy idx q) = q[idx := advance d (q ! idx)] \<and> gated d idx q)
      \<or> (snd (dispatch d cg cy idx q) = q[idx := after_turn d (q ! idx)]
          \<and> crossed (q ! idx) \<and> d \<noteq> Left)
      \<or> (d = Left \<and> crossed (q ! idx) \<and> x (q ! idx) + width (q ! idx) < - 10
          \<and> snd (dispatch d cg cy idx q) = take idx q @ drop (Suc idx) q))"
proof (cases d)
  case Right
  with right_cases [of q idx cg cy] show ?thesis by (auto simp: dispatch_def)
next
  case Down
  with down_cases [of q idx cg cy] show ?thesis by (auto simp: dispatch_def)
next
  case Left
  have "\<not> turning_now Left (q ! idx)" by (simp add: turning_now_def)
  with Left left_cases [of cg cy idx q] show ?thesis by (auto simp: dispatch_def)
next
  case Up
  with up_cases [of q idx cg cy] show ?thesis by (auto simp: dispatch_def)
qed

lemma passed_waiting [simp]:
  "passed_stop_line d (v\<lparr>waiting_time := w\<rparr>) = passed_stop_line d v"
  by (simp add: passed_stop_line_def width_def height_def split: direction.splits)

lemma set_lane_fields [simp]:
  "vehicles (set_lane d l q st) = (vehicles st)(d := (vehicles st d)(l := q))"
  "signals (set_lane d l q st) = signals st"
  "time_elapsed (set_lane d l q st) = time_elapsed st"
  "current_green (set_lane d l q st) = current_green st"
  "current_yellow (set_lane d l q st) = current_yellow st"
  "lane_last_green_time (set_lane d l q st) = lane_last_green_time st"
  "waiting_times (set_lane d l q st) = waiting_times st"
  "crossed_count (set_lane d l q st) = crossed_count st"
  by (simp_all add: set_lane_def)

lemma mark_crossed_fields:
  "vehicles (mark_crossed d l idx st) =
     (vehicles st)(d := (vehicles st d)(l :=
        (vehicles st d l)[idx := (vehicles st d l ! idx)\<lparr>crossed := True, cross_time := Some (time_elapsed st)\<rparr>]))"
  "waiting_times (mark_crossed d l idx st) =
     waiting_times st @ [time_elapsed st - spawn_time (vehicles st d l ! idx)]"
  "crossed_count (mark_crossed d l idx st) = (crossed_count st)(d := crossed_count st d + 1)"
  "signals (mark_crossed d l idx st) = signals st"
  "time_elapsed (mark_crossed d l idx st) = time_elapsed st"
  "current_green (mark_crossed d l idx st) = current_green st"
  "current_yellow (mark_crossed d l idx st) = current_yellow st"
  "lane_last_green_time (mark_crossed d l idx st) = lane_last_green_time st"
  by (simp_all add: mark_crossed_def Let_def)

lemma move_unfold:
  assumes "idx < length (vehicles st d l)"
  shows "move d l idx st =
     (let v = vehicles st d l ! idx;
          st1 = (if \<not> crossed v
                 then set_lane d l ((vehicles st d l)[idx := v\<lparr>waiting_time := waiting_time v + 1\<rparr>]) st
                 else st);
          st2 = check_crossing d l idx st1
      in set_lane d l (snd (dispatch d (current_green st2) (current_yellow st2) idx (vehicles st2 d l))) st2)"
  using assms by (simp add: move_def Let_def dispatch_def)

lemma move_crossed_before:
  assumes "idx < length (vehicles st d l)" "crossed (vehicles st d l ! idx)"
  shows "move d l idx st =
           set_lane d l (snd (dispatch d (current_green st) (current_yellow st) idx (vehicles st d l))) st"
  using assms by (simp add: move_unfold check_crossing_def Let_def)

lemma move_not_passed:
  assumes "idx < length (vehicles st d l)" "\<not> crossed (vehicles st d l ! idx)"
    "\<not> passed_stop_line d (vehicles st d l ! idx)"
  shows "move d l idx st =
           set_lane d l (snd (dispatch d (current_green st) (current_yellow st) idx
             ((vehicles st d l)[idx := (vehicles st d l ! idx)\<lparr>waiting_time := waiting_time (vehicles st d l ! idx) + 1\<rparr>])))
             st"
  using assms by (simp add: move_unfold check_crossing_def Let_def set_lane_def)

lemma move_passed:
  assumes "idx < length (vehicles st d l)" "\<not> crossed (vehicles st d l ! idx)"
    "passed_stop_line d (vehicles st d l ! idx)"
  shows "move d l idx st =
           (set_lane d l (snd (dispatch d (current_green st) (current_yellow st) idx
             ((vehicles st d l)[idx := (vehicles st d l ! idx)\<lparr>waiting_time := waiting_time (vehicles st d l ! idx) + 1,
                 crossed := True, cross_time := Some (time_elapsed st)\<rparr>])))
             st)\<lparr>waiting_times := waiting_times st @ [time_elapsed st - spawn_time (vehicles st d l ! idx)],
                 crossed_count := (crossed_count st)(d := crossed_count st d + 1)\<rparr>"
  using assms by (simp add: move_unfold check_crossing_def Let_def mark_crossed_fields set_lane_def mark_crossed_def)

lemma move_vehicles:
  assumes "idx < length (vehicles st d l)"
  shows "vehicles (move d l idx st) =
     (vehicles st)(d := (vehicles st d)(l :=
        snd (dispatch d (current_green st) (current_yellow st) idx
               ((vehicles st d l)[idx := entered d (time_elapsed st) (vehicles st d l ! idx)]))))"
proof (cases "crossed (vehicles st d l ! idx)")
  case True
  then show ?thesis by (simp add: move_crossed_before [OF assms] entered_def)
next
  case False
  show ?thesis
  proof (cases "passed_stop_line d (vehicles st d l ! idx)")
    case True
    with False show ?thesis by (simp add: move_passed [OF assms] entered_def)
  next
    case np: False
    with False show ?thesis by (simp add: move_not_passed [OF assms] entered_def)
  qed
qed

lemma move_metrics:
  assumes "idx < length (vehicles st d l)"
  shows "waiting_times (move d l idx st) =
           waiting_times st @
             (if \<not> crossed (vehicles st d l ! idx) \<and> passed_stop_line d (vehicles st d l ! idx)
              then [time_elapsed st - spawn_time (vehicles st d l ! idx)] else [])"
    and "crossed_count (move d l idx st) =
           (if \<not> crossed (vehicles st d l ! idx) \<and> passed_stop_line d (vehicles st d l ! idx)
            then (crossed_count st)(d := crossed_count st d + 1) else crossed_count st)"
proof -
  consider "crossed (vehicles st d l ! idx)"
    | "\<not> crossed (vehicles st d l ! idx)" "passed_stop_line d (vehicles st d l ! idx)"
    | "\<not> crossed (vehicles st d l ! idx)" "\<not> passed_stop_line d (vehicles st d l ! idx)"
    by blast
  then have "waiting_times (move d l idx st) =
           waiting_times st @
             (if \<not> crossed (vehicles st d l ! idx) \<and> passed_stop_line d (vehicles st d l ! idx)
              then [time_elapsed st - spawn_time (vehicles st d l ! idx)] else [])
      \<and> crossed_count (move d l idx st) =
           (if \<not> crossed (vehicles st d l ! idx) \<and> passed_stop_line d (vehicles st d l ! idx)
            then (crossed_count st)(d := crossed_count st d + 1) else crossed_count st)"
  proof cases
    case 1
    then show ?thesis by (simp add: move_crossed_before [OF assms])
  next
    case 2
    then show ?thesis by (simp add: move_passed [OF assms])
  next
    case 3
    then show ?thesis by (simp add: move_not_passed [OF assms])
  qed
  then show "waiting_times (move d l idx st) =
           waiting_times st @
             (if \<not> crossed (vehicles st d l ! idx) \<and> passed_stop_line d (vehicles st d l ! idx)
              then [time_elapsed st - spawn_time (vehicles st d l ! idx)] else [])"
    and "crossed_count (move d l idx st) =
           (if \<not> crossed (vehicles st d l ! idx) \<and> passed_stop_line d (vehicles st d l ! idx)
            then (crossed_count st)(d := crossed_count st d + 1) else crossed_count st)"
    by simp_all
qed

lemma check_crossing_globals:
  "signals (check_crossing d l idx st) = signals st"
  "time_elapsed (check_crossing d l idx st) = time_elapsed st"
  "current_green (check_crossing d l idx st) = current_green st"
  "current_yellow (check_crossing d l idx st) = current_yellow st"
  "lane_last_green_time (check_crossing d l idx st) = lane_last_green_time st"
  by (simp_all add: check_crossing_def Let_def mark_crossed_fields)

lemma move_globals:
  "signals (move d l idx st) = signals st"
  "time_elapsed (move d l idx st) = time_elapsed st"
  "current_green (move d l idx st) = current_green st"
  "current_yellow (move d l idx st) = current_yellow st"
  "lane_last_green_time (move d l idx st) = lane_last_green_time st"
  by (simp_all add: move_def Let_def check_crossing_globals)

lemma vehicle_inv_later: "vehicle_inv now v \<Longrightarrow> now \<le> now' \<Longrightarrow> vehicle_inv now' v"
  by (auto simp: vehicle_inv_def split: option.splits)

lemma vehicle_inv_entered: "vehicle_inv now v \<Longrightarrow> vehicle_inv now (entered d now v)"
  by (auto simp: vehicle_inv_def entered_def split: option.splits)

lemma vehicle_inv_steps:
  assumes "vehicle_inv now v"
  shows "vehicle_inv now (advance d v)" "vehicle_inv now (after_turn d v)"
    "crossed v \<Longrightarrow> vehicle_inv now (rotation_step d v)"
    "vehicle_inv now (v\<lparr>stop := s\<rparr>)"
  using assms
  by (auto simp: vehicle_inv_def advance_def after_turn_def rotation_step_def split: option.splits direction.splits)

lemma dispatch_elements:
  assumes "idx < length q" "u \<in> set (snd (dispatch d cg cy idx q))"
  shows "u \<in> set q \<or> u = advance d (q ! idx) \<or> u = after_turn d (q ! idx)
         \<or> (crossed (q ! idx) \<and> u = rotation_step d (q ! idx))"
proof -
  have upd: "u \<in> set (q[idx := a]) \<Longrightarrow> u \<in> set q \<or> u = a" for a
    using set_update_subset_insert [of q idx a] by auto
  have rem: "u \<in> set (take idx q @ drop (Suc idx) q) \<Longrightarrow> u \<in> set q"
    by (auto dest: in_set_takeD in_set_dropD)
  show ?thesis
  proof (cases "turning_now d (q ! idx)")
    case True
    then have "snd (dispatch d cg cy idx q) = q[idx := rotation_step d (q ! idx)]" "crossed (q ! idx)"
      using dispatch_cases [of d q idx cg cy] by (simp_all add: turning_now_def)
    with assms(2) upd show ?thesis by auto
  next
    case False
    with dispatch_cases [of d q idx cg cy] assms(2) upd rem show ?thesis
      by auto
  qed
qed

lemma world_inv_move:
  assumes "world_inv st"
  shows "world_inv (move d l idx st)"
proof (cases "idx < length (vehicles st d l)")
  case False
  then show ?thesis using assms by (simp add: move_def)
next
  case True
  let ?now = "time_elapsed st"
  let ?q = "vehicles st d l"
  let ?q2 = "?q[idx := entered d ?now (?q ! idx)]"
  have old: "vehicle_inv ?now u" if "u \<in> set (vehicles st d' l')" for u d' l'
    using assms that by (auto simp: world_inv_def)
  have self: "vehicle_inv ?now (?q2 ! idx)"
    using True old [of "?q ! idx" d l] by (simp add: vehicle_inv_entered)
  have q2: "vehicle_inv ?now u" if "u \<in> set ?q2" for u
  proof -
    from that set_update_subset_insert [of ?q idx] have "u \<in> set ?q \<or> u = entered d ?now (?q ! idx)"
      by auto
    then show ?thesis using old [of u d l] old [of "?q ! idx" d l] True
      by (auto simp: vehicle_inv_entered)
  qed
  have new: "vehicle_inv ?now u"
    if "u \<in> set (snd (dispatch d (current_green st) (current_yellow st) idx ?q2))" for u
  proof -
    have len: "idx < length ?q2" using True by simp
    from dispatch_elements [OF len that]
    show ?thesis using q2 self vehicle_inv_steps [OF self] by auto
  qed
  show ?thesis
    unfolding world_inv_def
  proof (intro allI ballI)
    fix d' l' u
    assume "u \<in> set (vehicles (move d l idx st) d' l')"
    then have "u \<in> set (snd (dispatch d (current_green st) (current_yellow st) idx ?q2))
               \<or> u \<in> set (vehicles st d' l')"
      by (auto simp: move_vehicles [OF True] split: if_splits)
    then show "vehicle_inv (time_elapsed (move d l idx st)) u"
      using new old by (auto simp: move_globals)
  qed
qed

lemma world_inv_spawn: 
  assumes "world_inv st"
  shows "world_inv (generate_vehicle load u t lane_number dir_number draw st)"
  using assms
  by (auto simp: world_inv_def generate_vehicle_def new_vehicle_def Let_def vehicle_inv_def split: if_splits)

lemma world_inv_reachable: "reachable st \<Longrightarrow> world_inv st"
proof (induction rule: reachable.induct)
  case start
  then show ?case by (simp add: world_inv_def world_defs)
next
  case (clock st)
  then have "vehicle_inv (time_elapsed st + 1) v" if "v \<in> set (vehicles st d l)" for v d l
    using that vehicle_inv_later [of "time_elapsed st" v "time_elapsed st + 1"]
    by (auto simp: world_inv_def)
  then show ?case
    by (simp add: world_inv_def simulation_timer_tick_def)
next
  case (spawn st lane_number dir_number t draw load u)
  then show ?case by (simp add: world_inv_spawn)
next
  case (motion st d l idx)
  then show ?case by (simp add: world_inv_move)
next
  case (grant st sel)
  then show ?case by (simp add: world_inv_def grant_green_def)
next
  case (size st bound st')
  then show ?case by (auto simp: world_inv_def size_green_def Let_def split: if_splits)
next
  case (timers st)
  then show ?case by (simp add: world_inv_def update_signal_values_def)
next
  case (lookahead st)
  then show ?case by (simp add: world_inv_def calculate_green_time_def Let_def)
next
  case (yellow st)
  then show ?case
    by (auto simp: world_inv_def enter_yellow_eq vehicle_inv_steps split: if_splits)
next
  case (red st)
  then show ?case by (simp add: world_inv_def leave_yellow_def)
qed

lemma crossed_entered: "crossed (entered d now v) = (crossed v \<or> passed_stop_line d v)"
  by (simp add: entered_def)

lemma dispatch_keeps_crossed:
  assumes "idx < length q" "length (snd (dispatch d cg cy idx q)) = length q"
  shows "crossed (snd (dispatch d cg cy idx q) ! idx) = crossed (q ! idx)"
proof (cases "turning_now d (q ! idx)")
  case True
  then have "snd (dispatch d cg cy idx q) = q[idx := rotation_step d (q ! idx)]"
    using dispatch_cases [of d q idx cg cy] by simp
  then show ?thesis using assms(1) by (simp add: rotation_step_def)
next
  case False
  have "length (take idx q @ drop (Suc idx) q) \<noteq> length q"
    using assms(1) by simp
  with False dispatch_cases [of d q idx cg cy] assms
  show ?thesis
    by (auto simp: advance_def after_turn_def split: direction.splits)
qed

lemma check_crossing_cases:
  assumes "idx < length (vehicles st d l)"
  shows "(crossed (vehicles st d l ! idx) \<or> \<not> passed_stop_line d (vehicles st d l ! idx)
          \<longrightarrow> check_crossing d l idx st = st)
    \<and> (\<not> crossed (vehicles st d l ! idx) \<and> passed_stop_line d (vehicles st d l ! idx)
          \<longrightarrow> check_crossing d l idx st =
              (set_lane d l ((vehicles st d l)[idx := (vehicles st d l ! idx)
                   \<lparr>crossed := True, cross_time := Some (time_elapsed st)\<rparr>]) st)
                \<lparr>waiting_times := waiting_times st @ [time_elapsed st - spawn_time (vehicles st d l ! idx)],
                 crossed_count := (crossed_count st)(d := crossed_count st d + 1)\<rparr>)"
  by (simp add: check_crossing_def mark_crossed_def Let_def)

lemma move_crossed_flag:
  assumes "idx < length (vehicles st d l)"
    "length (vehicles (move d l idx st) d l) = length (vehicles st d l)"
  shows "crossed (vehicles (move d l idx st) d l ! idx)
           = (crossed (vehicles st d l ! idx) \<or> passed_stop_line d (vehicles st d l ! idx))"
proof -
  let ?q2 = "(vehicles st d l)[idx := entered d (time_elapsed st) (vehicles st d l ! idx)]"
  have lane: "vehicles (move d l idx st) d l
      = snd (dispatch d (current_green st) (current_yellow st) idx ?q2)"
    by (simp add: move_vehicles [OF assms(1)])
  have "crossed (snd (dispatch d (current_green st) (current_yellow st) idx ?q2) ! idx)
          = crossed (?q2 ! idx)"
    using assms lane by (intro dispatch_keeps_crossed) simp_all
  then show ?thesis using assms(1) by (simp add: lane crossed_entered)
qed

lemma reachable_stamps:
  assumes "reachable st" "idx < length (vehicles st d l)"
  shows "spawn_time (vehicles st d l ! idx) \<le> time_elapsed st
     \<and> (crossed (vehicles st d l ! idx) \<longleftrightarrow> cross_time (vehicles st d l ! idx) \<noteq> None)
     \<and> (\<forall>t. cross_time (vehicles st d l ! idx) = Some t \<longrightarrow> spawn_time (vehicles st d l ! idx) \<le> t)"
proof -
  have "vehicle_inv (time_elapsed st) (vehicles st d l ! idx)"
    using world_inv_reachable [OF assms(1)] nth_mem [OF assms(2)] by (simp add: world_inv_def)
  then show ?thesis by (auto simp: vehicle_inv_def split: option.splits)
qed

text \<open>
  Claim C6. The crossing check changes nothing for a vehicle that has crossed or whose
  leading edge is not beyond the stop line of its direction. For an uncrossed vehicle
  whose leading edge is beyond it, the check sets \<open>crossed\<close>, records the clock as
  crossing time, appends crossing time minus spawn time to the wait-time series and adds
  one to the crossed counter of the direction, and nothing else. A call of \<open>move\<close> that
  keeps the vehicle queued leaves it crossed exactly when it had crossed before or its
  leading edge was beyond the stop line, so the flag never falls back; the call appends
  to the series and increments the counter only in that transition. In every reachable
  state a vehicle spawned no later than the clock, has a crossing time exactly when it has
  crossed, and its crossing time is not before its spawn time.
\<close>

theorem crossing_transition:
  assumes "idx < length (vehicles st d l)"
  shows "(crossed (vehicles st d l ! idx) \<or> \<not> passed_stop_line d (vehicles st d l ! idx)
          \<longrightarrow> check_crossing d l idx st = st)
    \<and> (\<not> crossed (vehicles st d l ! idx) \<and> passed_stop_line d (vehicles st d l ! idx)
          \<longrightarrow> check_crossing d l idx st =
              (set_lane d l ((vehicles st d l)[idx := (vehicles st d l ! idx)
                   \<lparr>crossed := True, cross_time := Some (time_elapsed st)\<rparr>]) st)
                \<lparr>waiting_times := waiting_times st @ [time_elapsed st - spawn_time (vehicles st d l ! idx)],
                 crossed_count := (crossed_count st)(d := crossed_count st d + 1)\<rparr>)
    \<and> (length (vehicles (move d l idx st) d l) = length (vehicles st d l)
          \<longrightarrow> crossed (vehicles (move d l idx st) d l ! idx)
              = (crossed (vehicles st d l ! idx) \<or> passed_stop_line d (vehicles st d l ! idx)))
    \<and> waiting_times (move d l idx st) =
         waiting_times st @
           (if \<not> crossed (vehicles st d l ! idx) \<and> passed_stop_line d (vehicles st d l ! idx)
            then [time_elapsed st - spawn_time (vehicles st d l ! idx)] else [])
    \<and> crossed_count (move d l idx st) =
         (if \<not> crossed (vehicles st d l ! idx) \<and> passed_stop_line d (vehicles st d l ! idx)
          then (crossed_count st)(d := crossed_count st d + 1) else crossed_count st)
    \<and> (reachable st \<longrightarrow>
          spawn_time (vehicles st d l ! idx) \<le> time_elapsed st
          \<and> (crossed (vehicles st d l ! idx) \<longleftrightarrow> cross_time (vehicles st d l ! idx) \<noteq> None)
          \<and> (\<forall>t. cross_time (vehicles st d l ! idx) = Some t
                 \<longrightarrow> spawn_time (vehicles st d l ! idx) \<le> t))"
  using check_crossing_cases [OF assms] move_crossed_flag [OF assms] move_metrics [OF assms]
    reachable_stamps [OF _ assms]
  by blast

lemma crossing_world_lane:
  "vehicles crossing_world Right 0 = [sample_vehicle Car 0 0 560 348]"
  "time_elapsed crossing_world = 7" "waiting_times crossing_world = []"
  "crossed_count crossing_world Right = 0"
  by (simp_all add: crossing_world_def world_defs)

lemma crossing_world_vehicle:
  "\<not> crossed (sample_vehicle Car 0 0 560 348)"
  "passed_stop_line Right (sample_vehicle Car 0 0 560 348)"
  "spawn_time (sample_vehicle Car 0 0 560 348) = 0"
  by (simp_all add: sample_vehicle_def passed_stop_line_def width_def)

lemma wide_world_lane:
  "vehicles wide_world Right 0 =
     [(sample_vehicle Car 0 0 0 348)\<lparr>original_image := wide_load Right Car, current_image := (600, 20)\<rparr>]"
  "time_elapsed wide_world = 1"
  by (simp_all add: wide_world_def simulation_timer_tick_def generate_vehicle_def new_vehicle_def
      set_stop_position_def world_defs Let_def VEHICLE_TYPES_def DIRECTIONS_def wide_load_def
      choose_will_turn_def)

lemma wide_world_reachable: "reachable (move Right 0 0 wide_world)"
  unfolding wide_world_def
  by (intro reachable.motion reachable.clock reachable.spawn reachable.start) simp_all

lemma wide_world_moved:
  "vehicles (move Right 0 0 wide_world) Right 0 =
     [(sample_vehicle Car 0 0 1.15 348)\<lparr>original_image := wide_load Right Car, current_image := (600, 20),
        waiting_time := 1, crossed := True, cross_time := Some 1\<rparr>]"
  by (simp add: move_vehicles wide_world_lane entered_def passed_stop_line_def width_def sample_vehicle_def
     dispatch_def move_right_def move_right_straight_def Let_def speed_def)

theorem crossing_transition_witness:
  "\<not> crossed (vehicles crossing_world Right 0 ! 0)
   \<and> passed_stop_line Right (vehicles crossing_world Right 0 ! 0)
   \<and> waiting_times (check_crossing Right 0 0 crossing_world) = [7]
   \<and> crossed_count (check_crossing Right 0 0 crossing_world) Right = 1
   \<and> cross_time (vehicles (check_crossing Right 0 0 crossing_world) Right 0 ! 0) = Some 7
   \<and> check_crossing Right 0 0 (check_crossing Right 0 0 crossing_world)
       = check_crossing Right 0 0 crossing_world
   \<and> reachable (move Right 0 0 wide_world)
   \<and> spawn_time (vehicles (move Right 0 0 wide_world) Right 0 ! 0) = 0
   \<and> cross_time (vehicles (move Right 0 0 wide_world) Right 0 ! 0) = Some 1"
proof -
  have len: "0 < length (vehicles crossing_world Right 0)"
    by (simp add: crossing_world_lane)
  have v: "vehicles crossing_world Right 0 ! 0 = sample_vehicle Car 0 0 560 348"
    by (simp add: crossing_world_lane)
  have first: "check_crossing Right 0 0 crossing_world =
      (set_lane Right 0 ((vehicles crossing_world Right 0)[0 := (vehicles crossing_world Right 0 ! 0)
                   \<lparr>crossed := True, cross_time := Some (time_elapsed crossing_world)\<rparr>]) crossing_world)
        \<lparr>waiting_times := waiting_times crossing_world
             @ [time_elapsed crossing_world - spawn_time (vehicles crossing_world Right 0 ! 0)],
         crossed_count := (crossed_count crossing_world)(Right := crossed_count crossing_world Right + 1)\<rparr>"
    using crossing_transition [OF len] by (simp add: v crossing_world_vehicle)
  have after: "vehicles (check_crossing Right 0 0 crossing_world) Right 0
      = [(sample_vehicle Car 0 0 560 348)\<lparr>crossed := True, cross_time := Some 7\<rparr>]"
    by (simp add: first crossing_world_lane)
  have len2: "0 < length (vehicles (check_crossing Right 0 0 crossing_world) Right 0)"
    by (simp add: after)
  have again: "check_crossing Right 0 0 (check_crossing Right 0 0 crossing_world)
       = check_crossing Right 0 0 crossing_world"
    using crossing_transition [OF len2] by (simp add: after)
  have len3: "0 < length (vehicles (move Right 0 0 wide_world) Right 0)"
    by (simp add: wide_world_moved)
  have stamps: "spawn_time (vehicles (move Right 0 0 wide_world) Right 0 ! 0) \<le> 1"
    using crossing_transition [OF len3] wide_world_reachable
    by (simp add: wide_world_moved)
  have c1: "\<not> crossed (vehicles crossing_world Right 0 ! 0)"
    "passed_stop_line Right (vehicles crossing_world Right 0 ! 0)"
    by (simp_all add: v crossing_world_vehicle)
  have c2: "waiting_times (check_crossing Right 0 0 crossing_world) = [7]"
    "crossed_count (check_crossing Right 0 0 crossing_world) Right = 1"
    by (simp_all add: first v crossing_world_lane crossing_world_vehicle)
  have c3: "cross_time (vehicles (check_crossing Right 0 0 crossing_world) Right 0 ! 0) = Some 7"
    by (simp add: after)
  have c4: "spawn_time (vehicles (move Right 0 0 wide_world) Right 0 ! 0) = 0"
    "cross_time (vehicles (move Right 0 0 wide_world) Right 0 ! 0) = Some 1"
    by (simp_all add: wide_world_moved sample_vehicle_def)
  from c1 c2 c3 again wide_world_reachable c4 show ?thesis
    by simp
qed

lemma speed_pos: "0 < speed v"
  by (cases "vehicle_class v") (simp_all add: speed_def)

lemma entered_position [simp]:
  "x (entered d now v) = x v" "y (entered d now v) = y v" "speed (entered d now v) = speed v"
  "will_turn (entered d now v) = will_turn v" "turned (entered d now v) = turned v"
  "before_turn_point d (entered d now v) = before_turn_point d v"
  by (simp_all add: entered_def speed_def before_turn_point_def width_def height_def split: direction.splits)

lemma turning_entered:
  "turning_now d (entered d now v) \<longleftrightarrow>
     d \<noteq> Left \<and> will_turn v \<and> (crossed v \<or> passed_stop_line d v)
     \<and> \<not> before_turn_point d v \<and> \<not> turned v"
  by (simp add: turning_now_def crossed_entered)

lemma step_positions:
  "x (advance d v) = x v \<and> \<bar>y (advance d v) - y v\<bar> = speed v
   \<or> \<bar>x (advance d v) - x v\<bar> = speed v \<and> y (advance d v) = y v"
  "x (after_turn d v) = x v \<and> \<bar>y (after_turn d v) - y v\<bar> = speed v
   \<or> \<bar>x (after_turn d v) - x v\<bar> = speed v \<and> y (after_turn d v) = y v"
  "x (rotation_step d v) = x v + fst (turn_displacement d)"
  "y (rotation_step d v) = y v + snd (turn_displacement d)"
  using speed_pos [of v]
  by (cases d; simp add: advance_def after_turn_def rotation_step_def speed_def)+

lemma turning_world_lane: "vehicles turning_world Right 2 = [turning_car]"
  by (simp add: turning_world_def world_defs)

lemma turning_car_fields:
  "will_turn turning_car" "crossed turning_car" "\<not> turned turning_car"
  "x turning_car = 670" "y turning_car = 398" "speed turning_car = 1.15"
  "\<not> before_turn_point Right turning_car"
  by (simp_all add: turning_car_def sample_vehicle_def speed_def before_turn_point_def width_def)

lemma turning_world_moved:
  "vehicles (move Right 2 0 turning_world) Right 2 = [rotation_step Right turning_car]"
proof -
  have "turning_now Right (entered Right (time_elapsed turning_world) turning_car)"
    by (simp add: turning_entered turning_car_fields)
  then show ?thesis
    using dispatch_cases [of Right "[entered Right (time_elapsed turning_world) turning_car]" 0
        "current_green turning_world" "current_yellow turning_world"]
    by (simp add: move_vehicles turning_world_lane entered_def turning_car_fields)
qed

text \<open>
  Claim C5, as stated: in every motion state, the rotation of a turn included, a call of
  \<open>move\<close> changes the position by at most the class speed along one axis. The turning
  car of \<open>turning_world\<close> has speed 1.15; the call moves it by 2 along x and by 1.8
  along y.
\<close>

theorem rotation_moves_both_axes:
  "speed turning_car = 1.15
   \<and> x (vehicles (move Right 2 0 turning_world) Right 2 ! 0) = x turning_car + 2
   \<and> y (vehicles (move Right 2 0 turning_world) Right 2 ! 0) = y turning_car + 1.8
   \<and> \<not> within_one_speed_step turning_car (vehicles (move Right 2 0 turning_world) Right 2 ! 0)"
  by (simp add: turning_world_moved step_positions turn_displacement_def within_one_speed_step_def
      turning_car_fields)

text \<open>
  Claim C5, amended. A call of \<open>move\<close> for a queued vehicle either removes it from its
  queue or keeps the queue length and changes the position as follows. When the vehicle
  rotates in this call (it is not of the left approach, turns, has crossed or is beyond
  its stop line, is no longer before its turn point and has not completed the turn), the
  position changes along both axes by the fixed displacement of its direction, (2, 1.8)
  for right, (-2.5, 2) for down and (1, -1) for up, whatever its class speed. In every
  other state the position is unchanged or changes by exactly the class speed along one
  axis.
\<close>

theorem motion_step:
  assumes "idx < length (vehicles st d l)"
  shows "length (vehicles (move d l idx st) d l) + 1 = length (vehicles st d l)
    \<or> (length (vehicles (move d l idx st) d l) = length (vehicles st d l)
       \<and> (if d \<noteq> Left \<and> will_turn (vehicles st d l ! idx)
              \<and> (crossed (vehicles st d l ! idx) \<or> passed_stop_line d (vehicles st d l ! idx))
              \<and> \<not> before_turn_point d (vehicles st d l ! idx) \<and> \<not> turned (vehicles st d l ! idx)
           then x (vehicles (move d l idx st) d l ! idx)
                  = x (vehicles st d l ! idx) + fst (turn_displacement d)
                \<and> y (vehicles (move d l idx st) d l ! idx)
                  = y (vehicles st d l ! idx) + snd (turn_displacement d)
           else (x (vehicles (move d l idx st) d l ! idx) = x (vehicles st d l ! idx)
                 \<and> y (vehicles (move d l idx st) d l ! idx) = y (vehicles st d l ! idx))
              \<or> (\<bar>x (vehicles (move d l idx st) d l ! idx) - x (vehicles st d l ! idx)\<bar>
                    = speed (vehicles st d l ! idx)
                 \<and> y (vehicles (move d l idx st) d l ! idx) = y (vehicles st d l ! idx))
              \<or> (x (vehicles (move d l idx st) d l ! idx) = x (vehicles st d l ! idx)
                 \<and> \<bar>y (vehicles (move d l idx st) d l ! idx) - y (vehicles st d l ! idx)\<bar>
                    = speed (vehicles st d l ! idx))))"
proof -
  let ?q = "vehicles st d l"
  let ?v = "?q ! idx"
  let ?e = "entered d (time_elapsed st) ?v"
  let ?q2 = "?q[idx := ?e]"
  let ?r = "snd (dispatch d (current_green st) (current_yellow st) idx ?q2)"
  have lane: "vehicles (move d l idx st) d l = ?r"
    by (simp add: move_vehicles [OF assms])
  have e: "?q2 ! idx = ?e" using assms by simp
  note cases = dispatch_cases [of d ?q2 idx "current_green st" "current_yellow st", unfolded e]
  show ?thesis
  proof (cases "turning_now d ?e")
    case True
    with cases have r: "?r = ?q2[idx := rotation_step d ?e]" by simp
    from True have cond: "d \<noteq> Left \<and> will_turn ?v \<and> (crossed ?v \<or> passed_stop_line d ?v)
        \<and> \<not> before_turn_point d ?v \<and> \<not> turned ?v"
      by (simp add: turning_entered)
    show ?thesis
      unfolding lane r using assms cond by (simp add: step_positions)
  next
    case False
    then have cond: "\<not> (d \<noteq> Left \<and> will_turn ?v \<and> (crossed ?v \<or> passed_stop_line d ?v)
        \<and> \<not> before_turn_point d ?v \<and> \<not> turned ?v)"
      by (simp add: turning_entered)
    from False cases consider
        (keep) "?r = ?q2"
      | (adv) "?r = ?q2[idx := advance d ?e]"
      | (post) "?r = ?q2[idx := after_turn d ?e]"
      | (gone) "?r = take idx ?q2 @ drop (Suc idx) ?q2"
      by blast
    then show ?thesis
    proof cases
      case keep
      show ?thesis unfolding lane keep using assms
        by (simp only: if_not_P [OF cond]) simp
    next
      case adv
      show ?thesis unfolding lane adv using assms cond step_positions(1) [of d ?e]
        by (simp only: if_not_P [OF cond]) auto
    next
      case post
      show ?thesis unfolding lane post using assms cond step_positions(2) [of d ?e]
        by (simp only: if_not_P [OF cond]) auto
    next
      case gone
      have "length (take idx ?q2 @ drop (Suc idx) ?q2) + 1 = length ?q"
        using assms by auto
      then show ?thesis unfolding lane gone by (rule disjI1)
    qed
  qed
qed


theorem motion_step_witness:
  "0 < length (vehicles turning_world Right 2)
   \<and> length (vehicles (move Right 2 0 turning_world) Right 2) = length (vehicles turning_world Right 2)
   \<and> x (vehicles (move Right 2 0 turning_world) Right 2 ! 0) = 672
   \<and> y (vehicles (move Right 2 0 turning_world) Right 2 ! 0) = 399.8
   \<and> 0 < length (vehicles crossing_world Right 0)
   \<and> \<bar>x (vehicles (move Right 0 0 crossing_world) Right 0 ! 0) - x (vehicles crossing_world Right 0 ! 0)\<bar>
       = speed (vehicles crossing_world Right 0 ! 0)
   \<and> y (vehicles (move Right 0 0 crossing_world) Right 0 ! 0) = y (vehicles crossing_world Right 0 ! 0)"
proof -
  have len: "0 < length (vehicles turning_world Right 2)"
    by (simp add: turning_world_lane)
  have same: "length (vehicles (move Right 2 0 turning_world) Right 2)
      = length (vehicles turning_world Right 2)"
    by (simp add: turning_world_moved turning_world_lane)
  have "x (vehicles (move Right 2 0 turning_world) Right 2 ! 0)
          = x (vehicles turning_world Right 2 ! 0) + fst (turn_displacement Right)
      \<and> y (vehicles (move Right 2 0 turning_world) Right 2 ! 0)
          = y (vehicles turning_world Right 2 ! 0) + snd (turn_displacement Right)"
    using motion_step [OF len] same
    by (simp add: turning_world_lane turning_car_fields)
  then have turn: "x (vehicles (move Right 2 0 turning_world) Right 2 ! 0) = 672"
    "y (vehicles (move Right 2 0 turning_world) Right 2 ! 0) = 399.8"
    by (simp_all add: turning_world_lane turning_car_fields turn_displacement_def)
  have len2: "0 < length (vehicles crossing_world Right 0)"
    by (simp add: crossing_world_lane)
  have moved: "vehicles (move Right 0 0 crossing_world) Right 0
      = [(sample_vehicle Car 0 0 561.15 348)\<lparr>waiting_time := 1, crossed := True, cross_time := Some 7\<rparr>]"
    by (simp add: move_vehicles crossing_world_lane entered_def passed_stop_line_def width_def
        sample_vehicle_def dispatch_def move_right_def move_right_straight_def Let_def speed_def
        DIRECTIONS_def)
  have straight: "\<bar>x (vehicles (move Right 0 0 crossing_world) Right 0 ! 0)
        - x (vehicles crossing_world Right 0 ! 0)\<bar> = speed (vehicles crossing_world Right 0 ! 0)
     \<and> y (vehicles (move Right 0 0 crossing_world) Right 0 ! 0) = y (vehicles crossing_world Right 0 ! 0)"
    using motion_step [OF len2]
    by (simp add: moved crossing_world_lane sample_vehicle_def speed_def)
  from len same turn len2 straight show ?thesis
    by simp
qed

subsection \<open>Order of a lane queue\<close>

lemma behind_along:
  "behind d f p \<longleftrightarrow> along d (leading_edge d f) < along d (trailing_edge d p)"
  by (cases d) (simp_all add: behind_def along_def)

lemma gap_kept_along:
  "gap_kept d f p \<longleftrightarrow> along d (leading_edge d f) < along d (trailing_edge d p) - MOVING_GAP"
  by (cases d) (auto simp: gap_kept_def along_def)

lemma advance_edges:
  "along d (leading_edge d (advance d v)) = along d (leading_edge d v) + speed v"
  "along d (trailing_edge d (advance d v)) = along d (trailing_edge d v) + speed v"
  "crossed (advance d v) = crossed v"
  by (cases d; simp add: along_def leading_edge_def trailing_edge_def advance_def width_def height_def speed_def)+

lemma speed_below_gap: "speed v < MOVING_GAP"
  by (cases "vehicle_class v") (simp_all add: speed_def MOVING_GAP_def)

lemma entered_edges:
  "leading_edge d (entered d now v) = leading_edge d v"
  "trailing_edge d (entered d now v) = trailing_edge d v"
  by (cases d; simp add: entered_def leading_edge_def trailing_edge_def width_def height_def)+

lemma nth_removed:
  assumes "idx < length q" "k < length q - 1"
  shows "(take idx q @ drop (Suc idx) q) ! k = (if k < idx then q ! k else q ! Suc k)"
  using assms by (auto simp: nth_append min_def)

lemma move_other_lanes:
  assumes "idx < length (vehicles st d l)" "(d', l') \<noteq> (d, l)"
  shows "vehicles (move d l idx st) d' l' = vehicles st d' l'"
  using assms(2) by (auto simp: move_vehicles [OF assms(1)])

lemma follower_step:
  assumes idx: "idx < length (vehicles st d l)" and pos: "0 < idx"
    and tc: "turned (vehicles st d l ! (idx - 1)) \<longrightarrow> crossed (vehicles st d l ! (idx - 1))"
    and same: "length (vehicles (move d l idx st) d l) = length (vehicles st d l)"
    and un: "\<not> crossed (vehicles (move d l idx st) d l ! idx)"
    and pun: "\<not> crossed (vehicles st d l ! (idx - 1))"
  shows "vehicles (move d l idx st) d l ! (idx - 1) = vehicles st d l ! (idx - 1)
    \<and> ((x (vehicles (move d l idx st) d l ! idx) = x (vehicles st d l ! idx)
         \<and> y (vehicles (move d l idx st) d l ! idx) = y (vehicles st d l ! idx))
       \<or> (gap_kept d (vehicles st d l ! idx) (vehicles st d l ! (idx - 1))
          \<and> behind d (vehicles (move d l idx st) d l ! idx) (vehicles st d l ! (idx - 1))))"
proof -
  let ?q = "vehicles st d l"
  let ?e = "entered d (time_elapsed st) (?q ! idx)"
  let ?q2 = "?q[idx := ?e]"
  let ?r = "snd (dispatch d (current_green st) (current_yellow st) idx ?q2)"
  let ?p = "?q ! (idx - 1)"
  have lane: "vehicles (move d l idx st) d l = ?r"
    by (simp add: move_vehicles [OF idx])
  have len: "idx < length ?q2" using idx by simp
  have e: "?q2 ! idx = ?e" using idx by simp
  have p: "?q2 ! (idx - 1) = ?p" using pos by simp
  have "crossed (?r ! idx) = crossed (?q2 ! idx)"
    using len same by (intro dispatch_keeps_crossed) (simp_all add: lane)
  with un have eun: "\<not> crossed ?e" by (simp add: lane e)
  then have nt: "\<not> turning_now d ?e" by (simp add: turning_now_def)
  have "length (take idx ?q2 @ drop (Suc idx) ?q2) \<noteq> length ?q2" using len by simp
  with same have ngone: "?r \<noteq> take idx ?q2 @ drop (Suc idx) ?q2"
    by (auto simp: lane)
  from dispatch_cases [of d ?q2 idx "current_green st" "current_yellow st", unfolded e] nt eun ngone
  consider (keep) "?r = ?q2" | (adv) "?r = ?q2[idx := advance d ?e]" "gated d idx ?q2"
    by blast
  then show ?thesis
  proof cases
    case keep
    then show ?thesis using idx pos by (simp add: lane)
  next
    case adv
    from pun tc have "\<not> turned ?p" by blast
    with adv(2) eun pos have g: "gap_kept d ?e ?p"
      by (simp add: gated_def e p)
    then have g0: "gap_kept d (?q ! idx) ?p"
      by (simp add: gap_kept_along entered_edges)
    from g have "behind d (advance d ?e) ?p"
      using speed_below_gap [of ?e] by (simp add: gap_kept_along behind_along advance_edges)
    with g0 show ?thesis using idx pos by (simp add: lane adv(1))
  qed
qed

lemma fifo_pair: "fifo d [a, b] \<longleftrightarrow> (\<not> crossed a \<and> \<not> crossed b \<longrightarrow> behind d b a)"
  by (auto simp: fifo_def less_Suc_eq numeral_2_eq_2)

lemmas order_defs = coordinate_def position_def image_limit_def beyond_def
  spawn_coordinate_def along_def

lemma not_ahead_position: "not_ahead d f p \<longleftrightarrow> position d f \<le> position d p"
  by (cases d) (simp_all add: not_ahead_def order_defs)

lemma right_gate_cases:
  "snd (move_right cg cy idx q) = q
   \<or> (snd (move_right cg cy idx q) = q[idx := advance Right (q ! idx)]
       \<and> (idx = 0 \<or> gap_kept Right (q ! idx) (q ! (idx - 1)) \<or> turned (q ! (idx - 1))))
   \<or> (crossed (q ! idx) \<and> \<not> before_turn_point Right (q ! idx)
       \<and> snd (move_right cg cy idx q) = q[idx := rotation_step Right (q ! idx)])
   \<or> (crossed (q ! idx) \<and> snd (move_right cg cy idx q) = q[idx := after_turn Right (q ! idx)])"
  by (simp add: move_right_def move_right_straight_def move_right_turn_def Let_def notion_defs)

lemma down_gate_cases:
  "snd (move_down cg cy idx q) = q
   \<or> (snd (move_down cg cy idx q) = q[idx := advance Down (q ! idx)]
       \<and> (idx = 0 \<or> gap_kept Down (q ! idx) (q ! (idx - 1)) \<or> turned (q ! (idx - 1))))
   \<or> (crossed (q ! idx) \<and> \<not> before_turn_point Down (q ! idx)
       \<and> snd (move_down cg cy idx q) = q[idx := rotation_step Down (q ! idx)])
   \<or> (crossed (q ! idx) \<and> snd (move_down cg cy idx q) = q[idx := after_turn Down (q ! idx)])"
  by (simp add: move_down_def move_down_straight_def move_down_turn_def Let_def notion_defs)

lemma up_gate_cases:
  "snd (move_up cg cy idx q) = q
   \<or> (snd (move_up cg cy idx q) = q[idx := advance Up (q ! idx)]
       \<and> (idx = 0 \<or> gap_kept Up (q ! idx) (q ! (idx - 1)) \<or> turned (q ! (idx - 1))))
   \<or> (crossed (q ! idx) \<and> \<not> before_turn_point Up (q ! idx)
       \<and> snd (move_up cg cy idx q) = q[idx := rotation_step Up (q ! idx)])
   \<or> (crossed (q ! idx) \<and> snd (move_up cg cy idx q) = q[idx := after_turn Up (q ! idx)])"
  by (simp add: move_up_def move_up_straight_def move_up_turn_def Let_def notion_defs)

lemma left_gate_cases:
  "snd (move_left cg cy idx q) = q
   \<or> (\<not> crossed (q ! idx) \<and> snd (move_left cg cy idx q) = q[idx := advance Left (q ! idx)]
       \<and> (idx = 0 \<or> gap_kept Left (q ! idx) (q ! (idx - 1)) \<or> turned (q ! (idx - 1))))
   \<or> (crossed (q ! idx) \<and> snd (move_left cg cy idx q) = q[idx := advance Left (q ! idx)]
       \<and> (case find (\<lambda>v. x v + width v > 0) (rev (take idx q)) of
             None \<Rightarrow> True
           | Some a \<Rightarrow> x (q ! idx) > x a + width a + MOVING_GAP))
   \<or> snd (move_left cg cy idx q) = take idx q @ drop (Suc idx) q"
  by (simp add: move_left_def move_left_straight_def move_left_turn_def move_left_after_crossing_def
      Let_def notion_defs)

lemma size_nonneg: "0 \<le> width v" "0 \<le> height v"
  by (simp_all add: width_def height_def)

lemma speed_bounds: "0 < speed v" "speed v < 15"
  using speed_pos [of v] speed_below_gap [of v] by (simp_all add: MOVING_GAP_def)

lemma position_steps:
  "position d (entered d now v) = position d v"
  "position d (advance d v) = position d v + speed v"
  "position d (after_turn d v) = position d v"
  by (cases d; simp add: order_defs entered_def advance_def after_turn_def speed_def)+

lemma position_rotation: "d \<noteq> Left \<Longrightarrow> position d v \<le> position d (rotation_step d v)"
  by (cases d) (simp_all add: order_defs rotation_step_def turn_displacement_def)

lemma beyond_mono:
  assumes "beyond d v" "position d v \<le> position d u" "d = Left \<longrightarrow> width u = width v"
  shows "beyond d u"
  using assms by (cases d) (simp_all add: order_defs)

lemma image_steps:
  "original_image (entered d now v) = original_image v"
  "original_image (advance d v) = original_image v"
  "original_image (after_turn d v) = original_image v"
  "original_image (rotation_step d v) = original_image v"
  "current_image (entered d now v) = current_image v"
  "current_image (advance d v) = current_image v"
  "current_image (after_turn d v) = current_image v"
  by (cases d; simp add: entered_def advance_def after_turn_def rotation_step_def)+

lemma sized_steps:
  "sized (entered d now v) = sized v"
  "sized (advance d v) = sized v"
  "sized (after_turn d v) = sized v"
  "sized (rotation_step d v) = sized v"
  by (simp_all add: sized_def image_steps)

lemma width_steps:
  "width (entered d now v) = width v"
  "width (advance d v) = width v"
  "width (after_turn d v) = width v"
  by (simp_all add: width_def image_steps)

lemma flag_steps:
  "turned (entered d now v) = turned v" "rotate_angle (entered d now v) = rotate_angle v"
  "turned (advance d v) = turned v" "rotate_angle (advance d v) = rotate_angle v"
  "crossed (advance d v) = crossed v"
  "turned (after_turn d v) = turned v" "rotate_angle (after_turn d v) = rotate_angle v"
  "crossed (after_turn d v) = crossed v"
  "crossed (rotation_step d v) = crossed v"
  by (cases d; simp add: entered_def advance_def after_turn_def rotation_step_def)+

lemma beyond_entered: "beyond d (entered d now v) = beyond d v"
  by (cases d) (simp_all add: beyond_def entered_def width_def)

lemma beyond_after_turn: "d \<noteq> Left \<Longrightarrow> beyond d (after_turn d v) = beyond d v"
  by (cases d) (simp_all add: beyond_def after_turn_def)

lemma placed_entered: "placed d v \<Longrightarrow> placed d (entered d now v)"
  by (simp add: placed_def position_steps flag_steps image_steps sized_steps beyond_entered
      crossed_entered)

lemma not_passed_not_beyond:
  assumes "\<not> passed_stop_line d v"
  shows "\<not> beyond d (advance d v)"
  using assms speed_bounds [of v] size_nonneg [of v]
  by (cases d) (simp_all add: passed_stop_line_def beyond_def advance_def image_limit_def
      width_def height_def)

lemma placed_advance:
  assumes "placed d v" "\<not> crossed v \<longrightarrow> \<not> passed_stop_line d v"
  shows "placed d (advance d v)"
proof -
  have up: "position d v \<le> position d (advance d v)"
    using speed_bounds(1) [of v] by (simp add: position_steps)
  have "beyond d v \<Longrightarrow> beyond d (advance d v)"
    by (rule beyond_mono [OF _ up]) (simp_all add: width_steps)
  moreover have "\<not> crossed v \<Longrightarrow> \<not> beyond d (advance d v)"
    using assms(2) by (simp add: not_passed_not_beyond)
  ultimately show ?thesis
    using assms(1) up
    by (auto simp: placed_def flag_steps image_steps sized_steps)
qed

lemma placed_after_turn:
  assumes "placed d v" "crossed v" "d \<noteq> Left"
  shows "placed d (after_turn d v)"
  using assms
  by (simp add: placed_def flag_steps image_steps sized_steps position_steps beyond_after_turn)

lemma turning_beyond:
  assumes "placed d v" "sized v" "d \<noteq> Left" "\<not> before_turn_point d v"
  shows "beyond d v"
proof (cases "rotate_angle v = 0")
  case True
  with assms(1) have "current_image v = original_image v 0" by (simp add: placed_def)
  with assms(2) have "width v \<le> 100" "height v \<le> 100"
    by (simp_all add: sized_def width_def height_def image_limit_def)
  with assms(3,4) show ?thesis
    by (cases d) (simp_all add: before_turn_point_def beyond_def image_limit_def)
next
  case False
  with assms(1,2) show ?thesis by (simp add: placed_def)
qed

lemma placed_rotation:
  assumes "placed d v" "crossed v" "d \<noteq> Left" "\<not> before_turn_point d v"
  shows "placed d (rotation_step d v)"
proof -
  have up: "position d v \<le> position d (rotation_step d v)"
    using assms(3) by (rule position_rotation)
  have far: "beyond d (rotation_step d v)" if "sized v"
    by (rule beyond_mono [OF turning_beyond [OF assms(1) that assms(3,4)] up])
      (simp add: assms(3))
  have img: "rotate_angle (rotation_step d v) = 0 \<longrightarrow>
      current_image (rotation_step d v) = original_image (rotation_step d v) 0"
    by (simp add: rotation_step_def)
  from assms(1) up have "along d (spawn_coordinate d) \<le> position d (rotation_step d v)"
    by (simp add: placed_def)
  with far img assms(2,3) show ?thesis
    by (simp add: placed_def flag_steps sized_steps)
qed

lemma gap_position:
  assumes "gap_kept d e p"
  shows "position d (advance d e) \<le> position d p"
  using assms speed_bounds [of e] size_nonneg [of e] size_nonneg [of p]
  by (cases d) (simp_all add: gap_kept_def leading_edge_def trailing_edge_def order_defs
      advance_def MOVING_GAP_def)

lemma all_set_update:
  assumes "idx < length q" "P e' = P (q ! idx)"
  shows "(\<forall>v \<in> set (q[idx := e']). P v) \<longleftrightarrow> (\<forall>v \<in> set q. P v)"
proof -
  have "(\<forall>k < length q. P (q[idx := e'] ! k)) \<longleftrightarrow> (\<forall>k < length q. P (q ! k))"
    using assms by (metis nth_list_update_eq nth_list_update_neq)
  then show ?thesis by (simp add: all_set_conv_all_nth)
qed

lemma order_update:
  assumes ord: "queue_order d q" and idx: "idx < length q"
    and up: "position d (q ! idx) \<le> position d e'"
    and far: "beyond d (q ! idx) \<longrightarrow> beyond d e'"
    and ahead: "\<forall>i < idx. not_ahead d e' (q ! i) \<or> beyond d (q ! i)"
  shows "queue_order d (q[idx := e'])"
  unfolding queue_order_def
proof (intro allI impI)
  fix j i
  assume j: "j < length (q[idx := e'])" and i: "i < j"
  from j have jl: "j < length q" by simp
  from ord jl i have old: "not_ahead d (q ! j) (q ! i) \<or> beyond d (q ! i)"
    by (simp add: queue_order_def)
  consider "j = idx" | "i = idx" | "i \<noteq> idx" "j \<noteq> idx" by blast
  then show "not_ahead d (q[idx := e'] ! j) (q[idx := e'] ! i) \<or> beyond d (q[idx := e'] ! i)"
  proof cases
    case 1
    with i have "i \<noteq> idx" "i < idx" by simp_all
    with 1 ahead idx show ?thesis by simp
  next
    case 2
    with i have ne: "j \<noteq> idx" by simp
    from old 2 up far have "not_ahead d (q ! j) e' \<or> beyond d e'"
      by (auto simp: not_ahead_position)
    with 2 ne idx show ?thesis by simp
  next
    case 3
    with old show ?thesis by simp
  qed
qed

lemma lane_inv_update:
  assumes inv: "lane_inv d q" and idx: "idx < length q"
    and img: "sized e' = sized (q ! idx)"
    and pl: "placed d e'"
    and up: "position d (q ! idx) \<le> position d e'"
    and far: "beyond d (q ! idx) \<longrightarrow> beyond d e'"
    and ahead: "queue_order d q \<Longrightarrow> d = Left \<or> (\<forall>v \<in> set q. sized v)
                  \<Longrightarrow> \<forall>i < idx. not_ahead d e' (q ! i) \<or> beyond d (q ! i)"
  shows "lane_inv d (q[idx := e'])"
proof -
  have "placed d v" if "v \<in> set (q[idx := e'])" for v
    using that inv pl set_update_subset_insert [of q idx e'] by (auto simp: lane_inv_def)
  moreover have "queue_order d (q[idx := e'])"
    if "d = Left \<or> (\<forall>v \<in> set (q[idx := e']). sized v)"
  proof -
    from that have s: "d = Left \<or> (\<forall>v \<in> set q. sized v)"
      using all_set_update [OF idx img] by blast
    with inv have ord: "queue_order d q" by (simp add: lane_inv_def)
    from ord idx up far ahead [OF ord s] show ?thesis by (rule order_update)
  qed
  ultimately show ?thesis by (simp add: lane_inv_def)
qed

lemma order_removed:
  assumes "queue_order d q" "idx < length q"
  shows "queue_order d (take idx q @ drop (Suc idx) q)"
  unfolding queue_order_def
proof (intro allI impI)
  let ?r = "take idx q @ drop (Suc idx) q"
  fix j i
  assume j: "j < length ?r" and i: "i < j"
  from j assms(2) have jl: "j < length q - 1" by simp
  with i have il: "i < length q - 1" by simp
  define j' where "j' = (if j < idx then j else Suc j)"
  define i' where "i' = (if i < idx then i else Suc i)"
  have "i' < j'" "j' < length q" using i jl by (auto simp: i'_def j'_def)
  with assms(1) have "not_ahead d (q ! j') (q ! i') \<or> beyond d (q ! i')"
    by (simp add: queue_order_def)
  then show "not_ahead d (?r ! j) (?r ! i) \<or> beyond d (?r ! i)"
    using i
    by (auto simp: nth_removed [OF assms(2) jl] nth_removed [OF assms(2) il] i'_def j'_def
        split: if_splits)
qed

lemma lane_inv_removed:
  assumes "lane_inv Left q" "idx < length q"
  shows "lane_inv Left (take idx q @ drop (Suc idx) q)"
proof -
  have "v \<in> set q" if "v \<in> set (take idx q @ drop (Suc idx) q)" for v
    using that by (auto dest: in_set_takeD in_set_dropD)
  with assms(1) have "\<forall>v \<in> set (take idx q @ drop (Suc idx) q). placed Left v"
    by (auto simp: lane_inv_def)
  moreover from assms have "queue_order Left (take idx q @ drop (Suc idx) q)"
    by (simp add: lane_inv_def order_removed)
  ultimately show ?thesis by (simp add: lane_inv_def)
qed

lemma lane_inv_append:
  assumes "lane_inv d q" "placed d v" "position d v = along d (spawn_coordinate d)"
  shows "lane_inv d (q @ [v])"
proof -
  have "queue_order d (q @ [v])" if "queue_order d q"
    unfolding queue_order_def
  proof (intro allI impI)
    fix j i
    assume j: "j < length (q @ [v])" and i: "i < j"
    show "not_ahead d ((q @ [v]) ! j) ((q @ [v]) ! i) \<or> beyond d ((q @ [v]) ! i)"
    proof (cases "j < length q")
      case True
      with that i show ?thesis by (simp add: queue_order_def nth_append)
    next
      case False
      with j have jq: "j = length q" by simp
      with i have "q ! i \<in> set q" by simp
      with assms(1) have "along d (spawn_coordinate d) \<le> position d (q ! i)"
        by (simp add: lane_inv_def placed_def)
      with jq i assms(3) show ?thesis by (simp add: nth_append not_ahead_position)
    qed
  qed
  with assms(1,2) show ?thesis by (auto simp: lane_inv_def)
qed

lemma beyond_ahead:
  assumes "queue_order d q" "k < length q" "d \<noteq> Left" "beyond d (q ! k)"
  shows "\<forall>i < k. beyond d (q ! i)"
proof (intro allI impI)
  fix i
  assume "i < k"
  with assms(1,2) have "not_ahead d (q ! k) (q ! i) \<or> beyond d (q ! i)"
    by (simp add: queue_order_def)
  then show "beyond d (q ! i)"
  proof
    assume "not_ahead d (q ! k) (q ! i)"
    then have "position d (q ! k) \<le> position d (q ! i)" by (simp add: not_ahead_position)
    with assms(4) show ?thesis by (rule beyond_mono) (simp add: assms(3))
  qed
qed

lemma ahead_of_predecessor:
  assumes "queue_order d q" "idx < length q" "0 < idx"
    and "position d e' \<le> position d (q ! (idx - 1))"
  shows "\<forall>i < idx. not_ahead d e' (q ! i) \<or> beyond d (q ! i)"
proof (intro allI impI)
  fix i
  assume i: "i < idx"
  show "not_ahead d e' (q ! i) \<or> beyond d (q ! i)"
  proof (cases "i = idx - 1")
    case True
    with assms(4) show ?thesis by (simp add: not_ahead_position)
  next
    case False
    with i have "i < idx - 1" by simp
    moreover have "idx - 1 < length q" using assms(2) by simp
    ultimately have "not_ahead d (q ! (idx - 1)) (q ! i) \<or> beyond d (q ! i)"
      using assms(1) by (simp add: queue_order_def)
    with assms(4) show ?thesis by (auto simp: not_ahead_position)
  qed
qed

lemma find_rev_take:
  assumes "find P (rev (take idx q)) = Some a" "idx \<le> length q"
  shows "\<exists>k < idx. a = q ! k \<and> P a \<and> (\<forall>m. k < m \<and> m < idx \<longrightarrow> \<not> P (q ! m))"
proof -
  let ?xs = "rev (take idx q)"
  have len: "length ?xs = idx" using assms(2) by simp
  from assms(1) obtain n where n: "n < length ?xs" "P (?xs ! n)" "a = ?xs ! n"
    "\<forall>m < n. \<not> P (?xs ! m)"
    by (auto simp: find_Some_iff)
  have nth: "?xs ! m = q ! (idx - Suc m)" if "m < idx" for m
    using that assms(2) by (simp add: rev_nth)
  let ?k = "idx - Suc n"
  have "?k < idx" using n(1) len by simp
  moreover have "a = q ! ?k" using n(1,3) len by (simp add: nth)
  moreover have "P a" using n(2,3) by simp
  moreover have "\<not> P (q ! m)" if "?k < m" "m < idx" for m
  proof -
    have "idx - Suc m < n" using that n(1) len by simp
    with n(4) have "\<not> P (?xs ! (idx - Suc m))" by simp
    moreover have "idx - Suc (idx - Suc m) = m" using that by simp
    moreover have "idx - Suc m < idx" using that by simp
    ultimately show ?thesis using nth [of "idx - Suc m"] by simp
  qed
  ultimately show ?thesis by blast
qed

lemma passed_entered: "passed_stop_line d (entered d now v) = passed_stop_line d v"
  by (cases d) (simp_all add: passed_stop_line_def entered_def width_def height_def)

lemma lane_inv_placed: "lane_inv d q \<Longrightarrow> k < length q \<Longrightarrow> placed d (q ! k)"
  by (simp add: lane_inv_def)

lemma lane_inv_advance_gated:
  assumes inv: "lane_inv d q" and idx: "idx < length q"
    and un: "\<not> crossed (q ! idx) \<longrightarrow> \<not> passed_stop_line d (q ! idx)"
    and gate: "idx = 0 \<or> gap_kept d (q ! idx) (q ! (idx - 1)) \<or> turned (q ! (idx - 1))"
  shows "lane_inv d (q[idx := advance d (q ! idx)])"
proof (rule lane_inv_update [OF inv idx])
  show "sized (advance d (q ! idx)) = sized (q ! idx)" by (simp add: sized_steps)
  show "placed d (advance d (q ! idx))"
    using lane_inv_placed [OF inv idx] un by (rule placed_advance)
  show up: "position d (q ! idx) \<le> position d (advance d (q ! idx))"
    using speed_bounds(1) [of "q ! idx"] by (simp add: position_steps)
  show "beyond d (q ! idx) \<longrightarrow> beyond d (advance d (q ! idx))"
    using up by (auto intro: beyond_mono simp: width_steps)
  show "\<forall>i < idx. not_ahead d (advance d (q ! idx)) (q ! i) \<or> beyond d (q ! i)"
    if ord: "queue_order d q" and s: "d = Left \<or> (\<forall>v \<in> set q. sized v)"
  proof (cases "idx = 0")
    case True
    then show ?thesis by simp
  next
    case False
    then have pos: "0 < idx" by simp
    then have pl: "idx - 1 < length q" using idx by simp
    show ?thesis
    proof (cases "gap_kept d (q ! idx) (q ! (idx - 1))")
      case True
      then have "position d (advance d (q ! idx)) \<le> position d (q ! (idx - 1))"
        by (rule gap_position)
      with ord idx pos show ?thesis by (rule ahead_of_predecessor)
    next
      case no_gap: False
      with gate False have t: "turned (q ! (idx - 1))" by simp
      from lane_inv_placed [OF inv pl] t
      have nl: "d \<noteq> Left" and b: "sized (q ! (idx - 1)) \<longrightarrow> beyond d (q ! (idx - 1))"
        by (simp_all add: placed_def)
      from s nl pl have "sized (q ! (idx - 1))" by simp
      with b have far: "beyond d (q ! (idx - 1))" by simp
      have "beyond d (q ! i)" if "i < idx" for i
      proof (cases "i = idx - 1")
        case True
        with far show ?thesis by simp
      next
        case False
        with that have "i < idx - 1" by simp
        with beyond_ahead [OF ord pl nl far] show ?thesis by simp
      qed
      then show ?thesis by simp
    qed
  qed
qed

lemma lane_inv_rotation:
  assumes inv: "lane_inv d q" and idx: "idx < length q"
    and c: "crossed (q ! idx)" and nl: "d \<noteq> Left" and tp: "\<not> before_turn_point d (q ! idx)"
  shows "lane_inv d (q[idx := rotation_step d (q ! idx)])"
proof (rule lane_inv_update [OF inv idx])
  note pl = lane_inv_placed [OF inv idx]
  show "sized (rotation_step d (q ! idx)) = sized (q ! idx)" by (simp add: sized_steps)
  show "placed d (rotation_step d (q ! idx))"
    using pl c nl tp by (rule placed_rotation)
  show up: "position d (q ! idx) \<le> position d (rotation_step d (q ! idx))"
    using nl by (rule position_rotation)
  show "beyond d (q ! idx) \<longrightarrow> beyond d (rotation_step d (q ! idx))"
    using up nl by (auto intro: beyond_mono)
  show "\<forall>i < idx. not_ahead d (rotation_step d (q ! idx)) (q ! i) \<or> beyond d (q ! i)"
    if ord: "queue_order d q" and s: "d = Left \<or> (\<forall>v \<in> set q. sized v)"
  proof -
    from s nl idx have "sized (q ! idx)" by simp
    with pl have "beyond d (q ! idx)" using nl tp by (rule turning_beyond)
    with beyond_ahead [OF ord idx nl] show ?thesis by simp
  qed
qed

lemma lane_inv_same_position:
  assumes inv: "lane_inv d q" and idx: "idx < length q"
    and "sized e' = sized (q ! idx)" "placed d e'"
    and same: "position d e' = position d (q ! idx)" "beyond d e' = beyond d (q ! idx)"
  shows "lane_inv d (q[idx := e'])"
proof (rule lane_inv_update [OF inv idx])
  show "\<forall>i < idx. not_ahead d e' (q ! i) \<or> beyond d (q ! i)" if "queue_order d q"
    using that idx same by (simp add: queue_order_def not_ahead_position)
qed (use assms in simp_all)

lemma lane_inv_after_turn:
  assumes inv: "lane_inv d q" and idx: "idx < length q"
    and c: "crossed (q ! idx)" and nl: "d \<noteq> Left"
  shows "lane_inv d (q[idx := after_turn d (q ! idx)])"
  using inv idx
proof (rule lane_inv_same_position)
  show "placed d (after_turn d (q ! idx))"
    using lane_inv_placed [OF inv idx] c nl by (rule placed_after_turn)
qed (simp_all add: sized_steps position_steps beyond_after_turn nl)

lemma lane_inv_entered:
  assumes inv: "lane_inv d q" and idx: "idx < length q"
  shows "lane_inv d (q[idx := entered d now (q ! idx)])"
  using inv idx
proof (rule lane_inv_same_position)
  show "placed d (entered d now (q ! idx))"
    using lane_inv_placed [OF inv idx] by (rule placed_entered)
qed (simp_all add: sized_steps position_steps beyond_entered)

lemma lane_inv_left_crossed:
  assumes inv: "lane_inv Left q" and idx: "idx < length q"
    and c: "crossed (q ! idx)"
    and gate: "case find (\<lambda>v. x v + width v > 0) (rev (take idx q)) of
                 None \<Rightarrow> True
               | Some a \<Rightarrow> x (q ! idx) > x a + width a + MOVING_GAP"
  shows "lane_inv Left (q[idx := advance Left (q ! idx)])"
proof (rule lane_inv_update [OF inv idx])
  let ?e = "q ! idx"
  let ?P = "\<lambda>v. x v + width v > 0"
  show "sized (advance Left ?e) = sized ?e" by (simp add: sized_steps)
  show "placed Left (advance Left ?e)"
    using lane_inv_placed [OF inv idx] c by (intro placed_advance) simp_all
  show up: "position Left ?e \<le> position Left (advance Left ?e)"
    using speed_bounds(1) [of ?e] by (simp add: position_steps)
  show "beyond Left ?e \<longrightarrow> beyond Left (advance Left ?e)"
    using up by (auto intro: beyond_mono simp: width_steps)
  show "\<forall>i < idx. not_ahead Left (advance Left ?e) (q ! i) \<or> beyond Left (q ! i)"
    if ord: "queue_order Left q"
  proof (cases "find ?P (rev (take idx q))")
    case None
    then have none: "\<forall>v \<in> set (take idx q). \<not> ?P v" by (simp add: find_None_iff)
    have "beyond Left (q ! i)" if "i < idx" for i
    proof -
      have "q ! i \<in> set (take idx q)"
        using that idx by (metis length_take min.absorb2 less_imp_le nth_mem nth_take)
      with none have "\<not> ?P (q ! i)" by blast
      then show ?thesis by (simp add: beyond_def not_less)
    qed
    then show ?thesis by simp
  next
    case (Some a)
    from find_rev_take [OF Some] idx obtain k where k: "k < idx" "a = q ! k"
      and between: "\<forall>m. k < m \<and> m < idx \<longrightarrow> \<not> ?P (q ! m)"
      by auto
    from gate Some k have "x ?e > x (q ! k) + width (q ! k) + MOVING_GAP" by simp
    then have near: "position Left (advance Left ?e) \<le> position Left (q ! k)"
      using speed_bounds [of ?e] size_nonneg [of "q ! k"]
      by (simp add: order_defs advance_def MOVING_GAP_def)
    show ?thesis
    proof (intro allI impI)
      fix i
      assume i: "i < idx"
      consider "i = k" | "k < i" | "i < k" by linarith
      then show "not_ahead Left (advance Left ?e) (q ! i) \<or> beyond Left (q ! i)"
      proof cases
        case 1
        with near show ?thesis by (simp add: not_ahead_position)
      next
        case 2
        with between i have "\<not> ?P (q ! i)" by blast
        then have "beyond Left (q ! i)" by (simp add: beyond_def not_less)
        then show ?thesis by simp
      next
        case 3
        moreover have "k < length q" using k(1) idx by simp
        ultimately have "not_ahead Left (q ! k) (q ! i) \<or> beyond Left (q ! i)"
          using ord by (simp add: queue_order_def)
        with near show ?thesis by (auto simp: not_ahead_position)
      qed
    qed
  qed
qed

lemma dispatch_gate_cases:
  assumes "d \<noteq> Left"
  shows "snd (dispatch d cg cy idx q) = q
   \<or> (snd (dispatch d cg cy idx q) = q[idx := advance d (q ! idx)]
       \<and> (idx = 0 \<or> gap_kept d (q ! idx) (q ! (idx - 1)) \<or> turned (q ! (idx - 1))))
   \<or> (crossed (q ! idx) \<and> \<not> before_turn_point d (q ! idx)
       \<and> snd (dispatch d cg cy idx q) = q[idx := rotation_step d (q ! idx)])
   \<or> (crossed (q ! idx) \<and> snd (dispatch d cg cy idx q) = q[idx := after_turn d (q ! idx)])"
proof (cases d)
  case Right
  with right_gate_cases [of cg cy idx q] show ?thesis by (simp add: dispatch_def)
next
  case Down
  with down_gate_cases [of cg cy idx q] show ?thesis by (simp add: dispatch_def)
next
  case Up
  with up_gate_cases [of cg cy idx q] show ?thesis by (simp add: dispatch_def)
next
  case Left
  with assms show ?thesis by simp
qed

lemma lane_inv_dispatch:
  assumes inv: "lane_inv d q" and idx: "idx < length q"
    and un: "\<not> crossed (q ! idx) \<longrightarrow> \<not> passed_stop_line d (q ! idx)"
  shows "lane_inv d (snd (dispatch d cg cy idx q))"
proof (cases "d = Left")
  case False
  let ?r = "snd (dispatch d cg cy idx q)"
  from dispatch_gate_cases [OF False, of cg cy idx q]
  consider (keep) "?r = q"
    | (adv) "?r = q[idx := advance d (q ! idx)]"
        "idx = 0 \<or> gap_kept d (q ! idx) (q ! (idx - 1)) \<or> turned (q ! (idx - 1))"
    | (rot) "crossed (q ! idx)" "\<not> before_turn_point d (q ! idx)"
        "?r = q[idx := rotation_step d (q ! idx)]"
    | (aft) "crossed (q ! idx)" "?r = q[idx := after_turn d (q ! idx)]"
    by blast
  then show ?thesis
  proof cases
    case keep
    with inv show ?thesis by simp
  next
    case adv
    from lane_inv_advance_gated [OF inv idx un adv(2)] adv(1) show ?thesis by simp
  next
    case rot
    from lane_inv_rotation [OF inv idx rot(1) False rot(2)] rot(3) show ?thesis by simp
  next
    case aft
    from lane_inv_after_turn [OF inv idx aft(1) False] aft(2) show ?thesis by simp
  qed
next
  case True
  let ?r = "snd (move_left cg cy idx q)"
  have r: "snd (dispatch d cg cy idx q) = ?r" using True by (simp add: dispatch_def)
  from inv True have invl: "lane_inv Left q" by simp
  from un True have unl: "\<not> crossed (q ! idx) \<longrightarrow> \<not> passed_stop_line Left (q ! idx)" by simp
  from left_gate_cases [of cg cy idx q]
  consider (keep) "?r = q"
    | (adv) "?r = q[idx := advance Left (q ! idx)]"
        "idx = 0 \<or> gap_kept Left (q ! idx) (q ! (idx - 1)) \<or> turned (q ! (idx - 1))"
    | (free) "crossed (q ! idx)" "?r = q[idx := advance Left (q ! idx)]"
        "case find (\<lambda>v. x v + width v > 0) (rev (take idx q)) of
           None \<Rightarrow> True
         | Some a \<Rightarrow> x (q ! idx) > x a + width a + MOVING_GAP"
    | (gone) "?r = take idx q @ drop (Suc idx) q"
    by blast
  then show ?thesis
  proof cases
    case keep
    with invl True r show ?thesis by simp
  next
    case adv
    from lane_inv_advance_gated [OF invl idx unl adv(2)] adv(1) True r show ?thesis by simp
  next
    case free
    from lane_inv_left_crossed [OF invl idx free(1,3)] free(2) True r show ?thesis by simp
  next
    case gone
    from lane_inv_removed [OF invl idx] gone True r show ?thesis by simp
  qed
qed

lemma lane_inv_move:
  assumes "lane_inv d' (vehicles st d' l')"
  shows "lane_inv d' (vehicles (move d l idx st) d' l')"
proof (cases "idx < length (vehicles st d l)")
  case False
  then show ?thesis using assms by (simp add: move_def)
next
  case True
  show ?thesis
  proof (cases "(d', l') = (d, l)")
    case False
    with assms show ?thesis by (simp add: move_other_lanes [OF True])
  next
    case same: True
    let ?q = "vehicles st d l"
    let ?q2 = "?q[idx := entered d (time_elapsed st) (?q ! idx)]"
    from assms same have inv: "lane_inv d ?q" by simp
    then have inv2: "lane_inv d ?q2" using True by (rule lane_inv_entered)
    have len: "idx < length ?q2" using True by simp
    have un: "\<not> crossed (?q2 ! idx) \<longrightarrow> \<not> passed_stop_line d (?q2 ! idx)"
      using True by (simp add: crossed_entered passed_entered)
    from lane_inv_dispatch [OF inv2 len un] same show ?thesis
      by (simp add: move_vehicles [OF True])
  qed
qed

lemma stop_fields:
  "position d (v\<lparr>stop := s\<rparr>) = position d v"
  "beyond d (v\<lparr>stop := s\<rparr>) = beyond d v"
  "sized (v\<lparr>stop := s\<rparr>) = sized v"
  by (cases d; simp add: position_def coordinate_def beyond_def sized_def width_def)+

lemma placed_stop: "placed d (v\<lparr>stop := s\<rparr>) = placed d v"
  by (simp add: placed_def stop_fields)

lemma lane_inv_stop: "lane_inv d (map (\<lambda>v. v\<lparr>stop := s\<rparr>) q) = lane_inv d q"
  by (simp add: lane_inv_def queue_order_def not_ahead_position stop_fields placed_stop)

lemma lane_inv_spawn:
  assumes inv: "lane_inv d' (vehicles st d' l')" and lane: "lane_number \<le> 2"
  shows "lane_inv d' (vehicles (generate_vehicle load u t lane_number dir_number draw st) d' l')"
proof (cases "(d', l') = (DIRECTIONS dir_number, lane_number)")
  case False
  with inv show ?thesis
    by (auto simp: generate_vehicle_def new_vehicle_def Let_def)
next
  case True
  let ?d = "DIRECTIONS dir_number"
  obtain self where lane': "vehicles (generate_vehicle load u t lane_number dir_number draw st) ?d lane_number
        = vehicles st ?d lane_number @ [self]"
    and fields: "x self = fst (SPAWN_COORDS ?d) ! lane_number" "y self = snd (SPAWN_COORDS ?d) ! lane_number"
      "\<not> crossed self" "\<not> turned self" "rotate_angle self = 0"
      "current_image self = original_image self 0"
    by (simp add: generate_vehicle_def new_vehicle_def Let_def)
  from lane have "lane_number = 0 \<or> lane_number = 1 \<or> lane_number = 2" by auto
  then have at: "position ?d self = along ?d (spawn_coordinate ?d)"
    using fields(1,2) by (cases ?d) (auto simp: order_defs)
  have "\<not> beyond ?d self"
    using at size_nonneg [of self] by (cases ?d) (simp_all add: order_defs)
  with fields at have "placed ?d self" by (simp add: placed_def)
  with inv True at have "lane_inv ?d (vehicles st ?d lane_number @ [self])"
    by (intro lane_inv_append) simp_all
  with True lane' show ?thesis by simp
qed

lemma lane_inv_reachable: "reachable st \<Longrightarrow> lane_inv d (vehicles st d l)"
proof (induction arbitrary: d l rule: reachable.induct)
  case start
  then show ?case by (simp add: lane_inv_def queue_order_def world_defs)
next
  case (clock st)
  then show ?case by (simp add: simulation_timer_tick_def)
next
  case (spawn st lane_number dir_number t draw load u)
  then show ?case by (simp add: lane_inv_spawn)
next
  case (motion st d0 l0 idx)
  then show ?case by (simp add: lane_inv_move)
next
  case (grant st sel)
  then show ?case by (simp add: grant_green_def)
next
  case (size st bound st')
  then show ?case by (auto simp: size_green_def Let_def split: if_splits)
next
  case (timers st)
  then show ?case by (simp add: update_signal_values_def)
next
  case (lookahead st)
  then show ?case by (simp add: calculate_green_time_def Let_def)
next
  case (yellow st)
  then show ?case by (simp add: enter_yellow_eq lane_inv_stop)
next
  case (red st)
  then show ?case by (simp add: leave_yellow_def)
qed

lemma uncrossed_not_ahead:
  assumes "reachable st"
    and "d = Left \<or> (\<forall>v \<in> set (vehicles st d l). sized v)"
    and "i < j" "j < length (vehicles st d l)"
    and "\<not> crossed (vehicles st d l ! i)"
  shows "not_ahead d (vehicles st d l ! j) (vehicles st d l ! i)"
proof -
  let ?q = "vehicles st d l"
  note inv = lane_inv_reachable [OF assms(1), of d l]
  with assms(2) have "queue_order d ?q" by (simp add: lane_inv_def)
  with assms(3,4) have "not_ahead d (?q ! j) (?q ! i) \<or> beyond d (?q ! i)"
    by (simp add: queue_order_def)
  moreover have "i < length ?q" using assms(3,4) by simp
  from lane_inv_placed [OF inv this] assms(5) have "\<not> beyond d (?q ! i)"
    by (simp add: placed_def)
  ultimately show ?thesis by simp
qed

lemma chained_world_reachable: "reachable chained_world"
proof -
  have car: "generate_vehicle sample_load 1 0 0 0 4 st
      = new_vehicle sample_load 0 Car 0 Right False st" for st
    by (simp add: generate_vehicle_def VEHICLE_TYPES_def DIRECTIONS_def choose_will_turn_def)
  have bus: "generate_vehicle sample_load 1 (Suc 0) 2 2 4 st
      = new_vehicle sample_load 2 Bus 2 Left False st" for st
    by (simp add: generate_vehicle_def VEHICLE_TYPES_def DIRECTIONS_def choose_will_turn_def)
  have spawn_car: "reachable st \<Longrightarrow> reachable (new_vehicle sample_load 0 Car 0 Right False st)" for st
    using reachable.spawn [of st 0 0 0 4 sample_load 1] by (simp add: car)
  have spawn_bus: "reachable st \<Longrightarrow> reachable (new_vehicle sample_load 2 Bus 2 Left False st)" for st
    using reachable.spawn [of st 2 2 1 4 sample_load 1] by (simp add: bus)
  show ?thesis
    unfolding chained_world_def
    by (intro spawn_car spawn_bus reachable.start)
qed

lemma reachable_moves: "reachable st \<Longrightarrow> reachable ((move d l idx ^^ n) st)"
  by (induction n) (simp_all add: reachable.motion)

lemma leader_run:
  assumes "n \<le> 400"
  shows "vehicles ((move Right 0 0 ^^ n) chained_world) Right 0
      = [(sample_vehicle Car 0 0 (1.15 * real n) 348)
           \<lparr>index := 0, original_image := sample_load Right Car, waiting_time := int n\<rparr>,
         (sample_vehicle Car 0 0 0 348)
           \<lparr>index := 1, original_image := sample_load Right Car, stop := 525\<rparr>]
     \<and> current_green ((move Right 0 0 ^^ n) chained_world) = 0
     \<and> current_yellow ((move Right 0 0 ^^ n) chained_world) = 0
     \<and> time_elapsed ((move Right 0 0 ^^ n) chained_world) = 0"
  using assms
proof (induction n)
  case 0
  then show ?case
    by (simp add: chained_lanes chained_world_globals sample_vehicle_def)
next
  case (Suc n)
  let ?st = "(move Right 0 0 ^^ n) chained_world"
  from Suc have lane: "vehicles ?st Right 0
      = [(sample_vehicle Car 0 0 (1.15 * real n) 348)
           \<lparr>index := 0, original_image := sample_load Right Car, waiting_time := int n\<rparr>,
         (sample_vehicle Car 0 0 0 348)
           \<lparr>index := 1, original_image := sample_load Right Car, stop := 525\<rparr>]"
    and globals: "current_green ?st = 0" "current_yellow ?st = 0" "time_elapsed ?st = 0"
    by simp_all
  have len: "0 < length (vehicles ?st Right 0)" by (simp add: lane)
  have near: "1.15 * real n + 40 \<le> 590" using Suc.prems by simp
  have "vehicles (move Right 0 0 ?st) Right 0
      = [(sample_vehicle Car 0 0 (1.15 * real (Suc n)) 348)
           \<lparr>index := 0, original_image := sample_load Right Car, waiting_time := int (Suc n)\<rparr>,
         (sample_vehicle Car 0 0 0 348)
           \<lparr>index := 1, original_image := sample_load Right Car, stop := 525\<rparr>]"
    using near
    by (simp add: move_vehicles [OF len] lane globals entered_def passed_stop_line_def width_def
        sample_vehicle_def dispatch_def move_right_def move_right_straight_def Let_def speed_def
        sample_load_def algebra_simps)
  then show ?case by (simp add: move_globals globals)
qed

lemma spaced_world_reachable: "reachable spaced_world"
  unfolding spaced_world_def using chained_world_reachable by (rule reachable_moves)

lemma spaced_world_lane:
  "vehicles spaced_world Right 0
      = [(sample_vehicle Car 0 0 115 348)
           \<lparr>index := 0, original_image := sample_load Right Car, waiting_time := 100\<rparr>,
         (sample_vehicle Car 0 0 0 348)
           \<lparr>index := 1, original_image := sample_load Right Car, stop := 525\<rparr>]"
  "current_green spaced_world = 0" "current_yellow spaced_world = 0" "time_elapsed spaced_world = 0"
  using leader_run [of 100] by (simp_all add: spaced_world_def)

lemma spaced_world_moved:
  "vehicles (move Right 0 (Suc 0) spaced_world) Right 0
      = [(sample_vehicle Car 0 0 115 348)
           \<lparr>index := 0, original_image := sample_load Right Car, waiting_time := 100\<rparr>,
         (sample_vehicle Car 0 0 1.15 348)
           \<lparr>index := 1, original_image := sample_load Right Car, stop := 525, waiting_time := 1\<rparr>]"
proof -
  have len: "Suc 0 < length (vehicles spaced_world Right 0)" by (simp add: spaced_world_lane)
  show ?thesis
    by (simp add: move_vehicles [OF len] spaced_world_lane entered_def passed_stop_line_def width_def
        sample_vehicle_def dispatch_def move_right_def move_right_straight_def Let_def speed_def
        sample_load_def MOVING_GAP_def)
qed

lemma chained_world_blocked:
  "vehicles (move Right 0 (Suc 0) chained_world) Right 0
      = [(sample_vehicle Car 0 0 0 348)\<lparr>index := 0, original_image := sample_load Right Car\<rparr>,
         (sample_vehicle Car 0 0 0 348)
           \<lparr>index := 1, original_image := sample_load Right Car, stop := 525, waiting_time := 1\<rparr>]"
proof -
  have len: "Suc 0 < length (vehicles chained_world Right 0)" by (simp add: chained_lanes)
  show ?thesis
    by (simp add: move_vehicles [OF len] chained_lanes chained_world_globals entered_def
        passed_stop_line_def width_def sample_vehicle_def dispatch_def move_right_def
        move_right_straight_def Let_def speed_def sample_load_def MOVING_GAP_def)
qed

text \<open>
  Claim C4, as stated: after every motion step the leading edge of a later vehicle is
  behind the earlier vehicle when both are uncrossed. The generator appends a vehicle at
  the spawn point of its lane without looking for room: in \<open>chained_world\<close>, reached by
  four spawns, the two cars of lane 0 of the right approach both stand at 0. After the
  motion step of the second car it is still there, its leading edge at 40 and the trailing
  edge of the first car at 0.
\<close>

theorem spawned_vehicles_overlap:
  "reachable chained_world
   \<and> reachable (move Right 0 1 chained_world)
   \<and> length (vehicles (move Right 0 1 chained_world) Right 0) = 2
   \<and> \<not> crossed (vehicles (move Right 0 1 chained_world) Right 0 ! 0)
   \<and> \<not> crossed (vehicles (move Right 0 1 chained_world) Right 0 ! 1)
   \<and> leading_edge Right (vehicles (move Right 0 1 chained_world) Right 0 ! 1) = 40
   \<and> trailing_edge Right (vehicles (move Right 0 1 chained_world) Right 0 ! 0) = 0
   \<and> \<not> behind Right (vehicles (move Right 0 1 chained_world) Right 0 ! 1)
          (vehicles (move Right 0 1 chained_world) Right 0 ! 0)
   \<and> \<not> fifo Right (vehicles (move Right 0 1 chained_world) Right 0)
   \<and> \<not> fifo Right (vehicles chained_world Right 0)"
proof -
  note r = chained_world_reachable
  then have r': "reachable (move Right 0 1 chained_world)" by (rule reachable.motion)
  note q = chained_world_blocked
  have "\<not> fifo Right (vehicles (move Right 0 (Suc 0) chained_world) Right 0)"
    unfolding q by (simp add: fifo_pair behind_def leading_edge_def trailing_edge_def
        sample_vehicle_def width_def)
  moreover have "\<not> fifo Right (vehicles chained_world Right 0)"
    by (simp add: chained_lanes fifo_pair behind_def leading_edge_def trailing_edge_def
        sample_vehicle_def width_def)
  ultimately show ?thesis
    using r r'
    by (simp add: q behind_def leading_edge_def trailing_edge_def sample_vehicle_def width_def)
qed

text \<open>
  Claim C4, amended. In every state that the threads can reach, and in every lane queue
  whose vehicles have unrotated images of at most 100 by 100 pixels (any images on the
  left approach), a vehicle is never ahead of an uncrossed vehicle that precedes it in the
  queue: its coordinate along the direction of travel has not passed that of the earlier
  vehicle. Moreover a call of \<open>move\<close> for a vehicle that is uncrossed afterwards, whose
  predecessor in the queue is uncrossed, leaves the predecessor as it is and either leaves
  the position of the vehicle unchanged or found its leading edge more than the moving gap
  behind the predecessor and leaves it behind the predecessor.
\<close>

theorem uncrossed_vehicles_keep_queue_order:
  assumes "reachable st"
  shows "(\<forall>i j. (d = Left \<or> (\<forall>v \<in> set (vehicles st d l). sized v))
            \<and> i < j \<and> j < length (vehicles st d l) \<and> \<not> crossed (vehicles st d l ! i)
            \<longrightarrow> not_ahead d (vehicles st d l ! j) (vehicles st d l ! i))
     \<and> (\<forall>idx. 0 < idx \<and> idx < length (vehicles st d l)
            \<and> length (vehicles (move d l idx st) d l) = length (vehicles st d l)
            \<and> \<not> crossed (vehicles (move d l idx st) d l ! idx)
            \<and> \<not> crossed (vehicles st d l ! (idx - 1))
            \<longrightarrow> vehicles (move d l idx st) d l ! (idx - 1) = vehicles st d l ! (idx - 1)
              \<and> ((x (vehicles (move d l idx st) d l ! idx) = x (vehicles st d l ! idx)
                    \<and> y (vehicles (move d l idx st) d l ! idx) = y (vehicles st d l ! idx))
                 \<or> (gap_kept d (vehicles st d l ! idx) (vehicles st d l ! (idx - 1))
                    \<and> behind d (vehicles (move d l idx st) d l ! idx)
                         (vehicles st d l ! (idx - 1)))))"
proof (rule conjI; intro allI impI)
  fix i j
  assume "(d = Left \<or> (\<forall>v \<in> set (vehicles st d l). sized v))
            \<and> i < j \<and> j < length (vehicles st d l) \<and> \<not> crossed (vehicles st d l ! i)"
  then show "not_ahead d (vehicles st d l ! j) (vehicles st d l ! i)"
    using uncrossed_not_ahead [OF assms, of d l i j] by blast
next
  fix idx
  assume h: "0 < idx \<and> idx < length (vehicles st d l)
            \<and> length (vehicles (move d l idx st) d l) = length (vehicles st d l)
            \<and> \<not> crossed (vehicles (move d l idx st) d l ! idx)
            \<and> \<not> crossed (vehicles st d l ! (idx - 1))"
  then have "idx - 1 < length (vehicles st d l)" by arith
  then have "vehicles st d l ! (idx - 1) \<in> set (vehicles st d l)"
    by (rule nth_mem)
  with world_inv_reachable [OF assms]
  have tc: "turned (vehicles st d l ! (idx - 1)) \<longrightarrow> crossed (vehicles st d l ! (idx - 1))"
    by (auto simp: world_inv_def vehicle_inv_def)
  from h follower_step [of idx st d l, OF _ _ tc]
  show "vehicles (move d l idx st) d l ! (idx - 1) = vehicles st d l ! (idx - 1)
              \<and> ((x (vehicles (move d l idx st) d l ! idx) = x (vehicles st d l ! idx)
                    \<and> y (vehicles (move d l idx st) d l ! idx) = y (vehicles st d l ! idx))
                 \<or> (gap_kept d (vehicles st d l ! idx) (vehicles st d l ! (idx - 1))
                    \<and> behind d (vehicles (move d l idx st) d l ! idx)
                         (vehicles st d l ! (idx - 1))))"
    by blast
qed

theorem uncrossed_vehicles_keep_queue_order_witness:
  "reachable spaced_world
   \<and> \<not> (\<exists>v \<in> set (vehicles spaced_world Right 0). \<not> sized v)
   \<and> length (vehicles spaced_world Right 0) = 2
   \<and> length (vehicles (move Right 0 1 spaced_world) Right 0) = 2
   \<and> \<not> crossed (vehicles spaced_world Right 0 ! 0)
   \<and> \<not> crossed (vehicles (move Right 0 1 spaced_world) Right 0 ! 1)
   \<and> x (vehicles spaced_world Right 0 ! 0) = 115
   \<and> x (vehicles spaced_world Right 0 ! 1) = 0
   \<and> not_ahead Right (vehicles spaced_world Right 0 ! 1) (vehicles spaced_world Right 0 ! 0)
   \<and> x (vehicles (move Right 0 1 spaced_world) Right 0 ! 1) = 1.15
   \<and> gap_kept Right (vehicles spaced_world Right 0 ! 1) (vehicles spaced_world Right 0 ! 0)
   \<and> behind Right (vehicles (move Right 0 1 spaced_world) Right 0 ! 1)
        (vehicles spaced_world Right 0 ! 0)"
proof -
  let ?q = "vehicles spaced_world Right 0"
  let ?q' = "vehicles (move Right 0 1 spaced_world) Right 0"
  note r = spaced_world_reachable
  note q' = spaced_world_moved
  have sz: "\<forall>v \<in> set ?q. sized v"
    by (simp add: spaced_world_lane sized_def sample_load_def image_limit_def)
  have facts: "length ?q = 2" "length ?q' = 2" "\<not> crossed (?q ! 0)" "\<not> crossed (?q' ! 1)"
    "x (?q ! 0) = 115" "x (?q ! 1) = 0" "x (?q' ! 1) = 1.15"
    by (simp_all add: spaced_world_lane q' sample_vehicle_def)
  note order = uncrossed_vehicles_keep_queue_order [OF r, of Right 0]
  from order sz facts have first: "not_ahead Right (?q ! 1) (?q ! 0)"
    by (elim conjE allE [of _ 0] allE [of _ 1]) simp
  from order have "0 < (1::nat) \<and> 1 < length ?q \<and> length ?q' = length ?q
            \<and> \<not> crossed (?q' ! 1) \<and> \<not> crossed (?q ! (1 - 1))
            \<longrightarrow> ?q' ! (1 - 1) = ?q ! (1 - 1)
              \<and> ((x (?q' ! 1) = x (?q ! 1) \<and> y (?q' ! 1) = y (?q ! 1))
                 \<or> (gap_kept Right (?q ! 1) (?q ! (1 - 1)) \<and> behind Right (?q' ! 1) (?q ! (1 - 1))))"
    by blast
  with facts have "gap_kept Right (?q ! 1) (?q ! 0) \<and> behind Right (?q' ! 1) (?q ! 0)"
    by simp
  with r sz facts first show ?thesis by simp
qed

end
